theory Spec2Isabelle
  imports Main
begin

section \<open>Values\<close>

text \<open>
  Payloads, context values and stored fields are Python objects of type \<open>Any\<close>. They are
  modelled as immutable trees; a dictionary keeps its insertion order.
\<close>

datatype pyval =
    PNone
  | PBool bool
  | PInt int
  | PStr string
  | PList "pyval list"
  | PDict "(string \<times> pyval) list"

section \<open>Stage tracker (backend/api/research.py)\<close>

text \<open>
  \<open>research_storage\<close> is a dictionary from research ids to dictionaries of fields. A field
  holds a plain value or a \<open>datetime\<close>; a \<open>datetime\<close> is the clock reading it was taken
  from.
\<close>

datatype field = Val pyval | Time nat

type_synonym entry = "string \<rightharpoonup> field"

type_synonym storage = "string \<rightharpoonup> entry"

text \<open>
  \<open>update_research_status\<close>: when the id is a key of the storage, \<open>dict.update\<close> writes
  the four keys into the stored entry; otherwise nothing happens. \<open>now\<close> is the value of
  \<open>datetime.utcnow()\<close> at the call.
\<close>

definition update_research_status ::
  "string \<Rightarrow> string \<Rightarrow> int \<Rightarrow> string \<Rightarrow> nat \<Rightarrow> storage \<Rightarrow> storage" where
  "update_research_status research_id status progress message now research_storage =
     (case research_storage research_id of
        None \<Rightarrow> research_storage
      | Some e \<Rightarrow>
          research_storage(research_id \<mapsto>
            e(''status'' \<mapsto> Val (PStr status),
              ''progress'' \<mapsto> Val (PInt progress),
              ''message'' \<mapsto> Val (PStr message),
              ''updated_at'' \<mapsto> Time now)))"

text \<open>
  Exceptions that leave \<open>get_research_status\<close>. \<open>NameError\<close> is what Python raises when a
  global name is looked up that the module never bound.
\<close>

datatype error =
    NameError string
  | KeyError string
  | ValidationError string
  | ResourceNotFoundError string string

text \<open>
  The names bound at module level in \<open>research.py\<close>: its imports, its classes, its
  functions and its two module variables.
\<close>

definition research_module_names :: "string list" where
  "research_module_names =
    [''asyncio'', ''datetime'', ''Any'', ''Dict'', ''Optional'', ''uuid4'',
     ''APIRouter'', ''Depends'', ''BackgroundTasks'', ''Query'', ''StreamingResponse'',
     ''BaseModel'', ''Field'',
     ''QueryAnalyzerAgent'', ''WebSearchAgent'', ''ContentExtractorAgent'',
     ''InsightGeneratorAgent'', ''ReportFormatterAgent'', ''ValidationAgent'',
     ''AgentOrchestrator'', ''get_logger'', ''log_research_query'',
     ''ResearchError'', ''ValidationError'', ''get_current_user'', ''rate_limit'',
     ''logger'', ''router'', ''ResearchRequest'', ''ResearchResponse'', ''ResearchStatus'',
     ''research_storage'', ''create_research_query'', ''execute_research'',
     ''update_research_status'', ''stream_research'', ''get_research_status'',
     ''get_research_history'']"

text \<open>
  \<open>raise C(...)\<close> first evaluates the global name \<open>C\<close>; the exception \<open>C(...)\<close> is raised
  only if the name is bound.
\<close>

definition raise_global :: "string \<Rightarrow> error \<Rightarrow> error" where
  "raise_global cls e = (if cls \<in> set research_module_names then e else NameError cls)"

record ResearchStatus =
  id :: string
  status :: string
  progress :: int
  message :: string
  created_at :: nat
  updated_at :: nat

text \<open>\<open>data[key]\<close> raises \<open>KeyError\<close> on a missing key; \<open>data.get(key, default)\<close> does not.\<close>

definition subscript :: "entry \<Rightarrow> string \<Rightarrow> error + field" where
  "subscript data k = (case data k of None \<Rightarrow> Inl (KeyError k) | Some v \<Rightarrow> Inr v)"

definition get_default :: "entry \<Rightarrow> string \<Rightarrow> field \<Rightarrow> field" where
  "get_default data k d = (case data k of None \<Rightarrow> d | Some v \<Rightarrow> v)"

text \<open>The field types that the \<open>ResearchStatus\<close> model declares and validates.\<close>

fun as_str :: "string \<Rightarrow> field \<Rightarrow> error + string" where
  "as_str k (Val (PStr s)) = Inr s"
| "as_str k _ = Inl (ValidationError k)"

fun as_int :: "string \<Rightarrow> field \<Rightarrow> error + int" where
  "as_int k (Val (PInt n)) = Inr n"
| "as_int k _ = Inl (ValidationError k)"

fun as_datetime :: "string \<Rightarrow> field \<Rightarrow> error + nat" where
  "as_datetime k (Time t) = Inr t"
| "as_datetime k _ = Inl (ValidationError k)"

text \<open>Sequencing of steps that may raise: the first exception ends the evaluation.\<close>

definition and_then :: "error + 'a \<Rightarrow> ('a \<Rightarrow> error + 'b) \<Rightarrow> error + 'b" where
  "and_then x f = (case x of Inl e \<Rightarrow> Inl e | Inr v \<Rightarrow> f v)"

text \<open>
  The construction \<open>ResearchStatus(id=data["id"], ...)\<close> at the end of
  \<open>get_research_status\<close>: the keyword arguments are evaluated in the order written, then
  the model validates them.
\<close>

definition build_status :: "entry \<Rightarrow> error + ResearchStatus" where
  "build_status data =
     and_then (subscript data ''id'') (\<lambda>v_id.
     and_then (subscript data ''status'') (\<lambda>v_status.
     let v_progress = get_default data ''progress'' (Val (PInt 0));
         v_message = get_default data ''message'' (Val (PStr '''')) in
     and_then (subscript data ''created_at'') (\<lambda>v_created.
     and_then (subscript data ''updated_at'') (\<lambda>v_updated.
     and_then (as_str ''id'' v_id) (\<lambda>i.
     and_then (as_str ''status'' v_status) (\<lambda>s.
     and_then (as_int ''progress'' v_progress) (\<lambda>p.
     and_then (as_str ''message'' v_message) (\<lambda>m.
     and_then (as_datetime ''created_at'' v_created) (\<lambda>c.
     and_then (as_datetime ''updated_at'' v_updated) (\<lambda>u.
       Inr \<lparr>id = i, status = s, progress = p, message = m,
            created_at = c, updated_at = u\<rparr>))))))))))"

text \<open>\<open>get_research_status\<close>: the membership test, then the snapshot of the entry.\<close>

definition get_research_status :: "storage \<Rightarrow> string \<Rightarrow> error + ResearchStatus" where
  "get_research_status research_storage research_id =
     (case research_storage research_id of
        None \<Rightarrow>
          Inl (raise_global ''ResourceNotFoundError''
                 (ResourceNotFoundError ''Research query'' research_id))
      | Some data \<Rightarrow> build_status data)"

text \<open>
  The entry \<open>create_research_query\<close> stores when a workflow begins. It has no
  \<open>message\<close> key yet.
\<close>

definition initial_entry :: "string \<Rightarrow> string \<Rightarrow> pyval \<Rightarrow> nat \<Rightarrow> nat \<Rightarrow> entry" where
  "initial_entry research_id query user_id t1 t2 =
     [''id'' \<mapsto> Val (PStr research_id),
      ''status'' \<mapsto> Val (PStr ''processing''),
      ''progress'' \<mapsto> Val (PInt 0),
      ''query'' \<mapsto> Val (PStr query),
      ''created_at'' \<mapsto> Time t1,
      ''updated_at'' \<mapsto> Time t2,
      ''user_id'' \<mapsto> Val user_id]"

section \<open>Agents (backend/agents/base.py)\<close>

subsection \<open>Dictionaries and strings\<close>

text \<open>
  A context or metadata dictionary is a list of key-value pairs in insertion order with
  distinct keys. \<open>d[k] = v\<close> replaces the value of an existing key in place and appends a
  new key at the end.
\<close>

type_synonym dict = "(string \<times> pyval) list"

fun dict_set :: "string \<Rightarrow> pyval \<Rightarrow> dict \<Rightarrow> dict" where
  "dict_set k v [] = [(k, v)]"
| "dict_set k v (p # d) = (if fst p = k then (k, v) # d else p # dict_set k v d)"

definition keys :: "dict \<Rightarrow> string list" where
  "keys d = map fst d"

text \<open>\<open>str(n)\<close> for an integer, as an f-string prints it.\<close>

fun str_nat :: "nat \<Rightarrow> string" where
  "str_nat n =
     (if n < 10 then [''0123456789'' ! n]
      else str_nat (n div 10) @ [''0123456789'' ! (n mod 10)])"

declare str_nat.simps [simp del]

definition str_int :: "int \<Rightarrow> string" where
  "str_int i = (if i < 0 then ''-'' @ str_nat (nat (- i)) else str_nat (nat i))"

subsection \<open>The core computation\<close>

text \<open>
  \<open>_execute\<close> is abstract in \<open>BaseAgent\<close>: every agent brings its own. What
  \<open>execute\<close> can observe of one run of it under \<open>asyncio.wait_for\<close> is
  \<^item> how it ended: it returned a value, it raised an exception, or the deadline passed
    first (\<open>wait_for\<close> then raises \<open>asyncio.TimeoutError\<close> itself);
  \<^item> the wall-clock time that elapsed, in milliseconds (the difference of two
    \<open>time.time()\<close> readings times 1000);
  \<^item> what it left in the agent's context dictionary, which it can read and write through
    \<open>get_context\<close> and \<open>set_context\<close> while it runs;
  \<^item> what it did to the world outside the program (network, clocks, counters).
  An exception is an instance of Python's \<open>Exception\<close>: either
  \<open>asyncio.TimeoutError\<close>, which the first handler matches, or any other one, of which the
  second handler uses only \<open>str(e)\<close>. Signals outside that class (\<open>KeyboardInterrupt\<close>,
  \<open>SystemExit\<close>, \<open>asyncio.CancelledError\<close>) end the process or the coroutine and are not
  results of a computation here.
\<close>

datatype exn = AsyncTimeoutError | Exception string

datatype outcome = Returned pyval | Raised exn | DeadlineExceeded

record ('w, 'd) run =
  outcome :: outcome
  elapsed_ms :: 'd
  context_after :: dict
  world_after :: 'w

record 'd AgentResult =
  agent_name :: string
  success :: bool
  data :: pyval
  error :: "string option"
  duration_ms :: 'd
  metadata :: dict

text \<open>
  An agent object: its identity \<open>ref\<close>, the attributes set by \<open>__init__\<close>, and its
  \<open>_execute\<close>, a function of the input, of the context dictionary at the start and of the
  world. The attribute \<open>_context\<close> is mutable and lives in the state below.
\<close>

record ('w, 'd) agent =
  ref :: nat
  name :: string
  agent_id :: string
  timeout :: int
  core :: "pyval \<Rightarrow> dict \<Rightarrow> 'w \<Rightarrow> ('w, 'd) run"

subsection \<open>Program state\<close>

text \<open>
  Dictionaries are objects: two variables may hold the same one, and \<open>{**d}\<close> makes a new
  one. The state therefore has a store of dictionaries by address, with \<open>next_addr\<close> the
  first address not yet in use, and for every agent the address its \<open>_context\<close> holds.
  \<open>next_agent\<close> is the \<open>next_agent\<close> attribute of chainable agents (absent for an agent
  that has none or whose link is \<open>None\<close>). \<open>calls\<close> is not program state: it records, for
  the statements below, every call of \<open>execute\<close> in the order made, with the input, the
  contents of the context the computation started with, and the envelope returned.
\<close>

record 'd call =
  callee :: nat
  call_input :: pyval
  call_context :: dict
  returned :: "'d AgentResult"

record ('w, 'd) state =
  dicts :: "nat \<Rightarrow> dict"
  next_addr :: nat
  context_of :: "nat \<Rightarrow> nat"
  next_agent :: "nat \<rightharpoonup> ('w, 'd) agent"
  world :: 'w
  calls :: "'d call list"

text \<open>A dictionary display or \<open>{**d}\<close>: a new object with the given contents.\<close>

definition new_dict :: "dict \<Rightarrow> ('w, 'd) state \<Rightarrow> nat \<times> ('w, 'd) state" where
  "new_dict d st =
     (next_addr st, st\<lparr>dicts := (dicts st)(next_addr st := d), next_addr := Suc (next_addr st)\<rparr>)"

text \<open>
  \<open>context or {}\<close>: \<open>None\<close> and the empty dictionary are both false, so either gives a new
  empty dictionary; a non-empty dictionary is used itself, not copied.
\<close>

definition or_empty :: "nat option \<Rightarrow> ('w, 'd) state \<Rightarrow> nat \<times> ('w, 'd) state" where
  "or_empty context st =
     (case context of
        None \<Rightarrow> new_dict [] st
      | Some c \<Rightarrow> if dicts st c = [] then new_dict [] st else (c, st))"

subsection \<open>BaseAgent\<close>

definition get_metadata :: "('w, 'd) agent \<Rightarrow> ('w, 'd) state \<Rightarrow> dict" where
  "get_metadata self st =
     [(''agent_id'', PStr (agent_id self)),
      (''context_keys'', PList (map PStr (keys (dicts st (context_of st (ref self))))))]"

definition set_context :: "('w, 'd) agent \<Rightarrow> string \<Rightarrow> pyval \<Rightarrow> ('w, 'd) state \<Rightarrow> ('w, 'd) state" where
  "set_context self key v st =
     st\<lparr>dicts := (dicts st)(context_of st (ref self) :=
           dict_set key v (dicts st (context_of st (ref self))))\<rparr>"

definition get_context :: "('w, 'd) agent \<Rightarrow> string \<Rightarrow> pyval \<Rightarrow> ('w, 'd) state \<Rightarrow> pyval" where
  "get_context self key dflt st =
     (case map_of (dicts st (context_of st (ref self))) key of None \<Rightarrow> dflt | Some v \<Rightarrow> v)"

definition timeout_message :: "('w, 'd) agent \<Rightarrow> string" where
  "timeout_message self = ''Agent execution timed out after '' @ str_int (timeout self) @ ''s''"

text \<open>The envelope both exception handlers build.\<close>

definition failed :: "('w, 'd) agent \<Rightarrow> string \<Rightarrow> 'd \<Rightarrow> dict \<Rightarrow> 'd AgentResult" where
  "failed self error_msg d md =
     \<lparr>agent_name = name self, success = False, data = PNone, error = Some error_msg,
      duration_ms = d, metadata = md\<rparr>"

text \<open>
  \<open>execute\<close>: the context attribute is assigned first; then the computation runs on that
  dictionary; every branch reads the metadata after the computation has ended. Logging
  has no effect on the result and is left out.
\<close>

definition execute ::
  "('w, 'd) agent \<Rightarrow> pyval \<Rightarrow> nat option \<Rightarrow> ('w, 'd) state \<Rightarrow> 'd AgentResult \<times> ('w, 'd) state" where
  "execute self input_data context st =
     (let (c, st1) = or_empty context st;
          st2 = st1\<lparr>context_of := (context_of st1)(ref self := c)\<rparr>;
          r = core self input_data (dicts st2 c) (world st2);
          st3 = st2\<lparr>dicts := (dicts st2)(c := context_after r), world := world_after r\<rparr>;
          md = get_metadata self st3;
          res = (case outcome r of
                   Returned v \<Rightarrow>
                     \<lparr>agent_name = name self, success = True, data = v, error = None,
                      duration_ms = elapsed_ms r, metadata = md\<rparr>
                 | DeadlineExceeded \<Rightarrow> failed self (timeout_message self) (elapsed_ms r) md
                 | Raised AsyncTimeoutError \<Rightarrow> failed self (timeout_message self) (elapsed_ms r) md
                 | Raised (Exception msg) \<Rightarrow> failed self msg (elapsed_ms r) md)
      in (res, st3\<lparr>calls := calls st3 @
                 [\<lparr>callee = ref self, call_input = input_data,
                   call_context = dicts st2 c, returned = res\<rparr>]\<rparr>))"

subsection \<open>AgentOrchestrator\<close>

text \<open>
  The loop of \<open>execute_sequential\<close> over the remaining agents. \<open>self_context\<close> is the
  address held by the orchestrator's \<open>_context\<close>.
\<close>

fun sequential_loop ::
  "('w, 'd) agent list \<Rightarrow> nat \<Rightarrow> 'd AgentResult list \<Rightarrow> pyval \<Rightarrow> ('w, 'd) state
     \<Rightarrow> 'd AgentResult list \<times> ('w, 'd) state" where
  "sequential_loop [] self_context results current_input st = (results, st)"
| "sequential_loop (agent # rest) self_context results current_input st =
     (let (agent_context, st1) = new_dict (dicts st self_context) st;
          st2 = (if results \<noteq> []
                 then st1\<lparr>dicts := (dicts st1)(agent_context :=
                        dict_set ''previous_results''
                          (PList (map data (filter success results)))
                          (dicts st1 agent_context))\<rparr>
                 else st1);
          (result, st3) = execute agent current_input (Some agent_context) st2;
          results' = results @ [result]
      in if \<not> success result then (results', st3)
         else sequential_loop rest self_context results' (data result) st3)"

definition execute_sequential ::
  "('w, 'd) agent list \<Rightarrow> pyval \<Rightarrow> nat option \<Rightarrow> ('w, 'd) state
     \<Rightarrow> 'd AgentResult list \<times> ('w, 'd) state" where
  "execute_sequential agents initial_input context st =
     (let (self_context, st1) = or_empty context st
      in sequential_loop agents self_context [] initial_input st1)"

text \<open>
  \<open>execute_parallel\<close> first builds one coroutine per agent, each with its own copy of the
  context; none of them has started when the loop ends.
\<close>

fun make_tasks ::
  "('w, 'd) agent list \<Rightarrow> nat \<Rightarrow> ('w, 'd) state
     \<Rightarrow> (('w, 'd) agent \<times> nat) list \<times> ('w, 'd) state" where
  "make_tasks [] self_context st = ([], st)"
| "make_tasks (agent # rest) self_context st =
     (let (agent_context, st1) = new_dict (dicts st self_context) st;
          (tasks, st2) = make_tasks rest self_context st1
      in ((agent, agent_context) # tasks, st2))"

text \<open>
  \<open>asyncio.gather\<close> runs the coroutines concurrently and puts each result at the position
  of its coroutine. Here each call of \<open>execute\<close> takes effect as a whole, and the order in
  which the calls take effect is a parameter: \<open>schedule\<close> lists the positions in that
  order. \<open>gather\<close> returns once every position is filled; \<open>those\<close> gives \<open>None\<close> if a
  position was never run.
\<close>

fun gather ::
  "(('w, 'd) agent \<times> nat) list \<Rightarrow> pyval \<Rightarrow> nat list \<Rightarrow> 'd AgentResult option list
     \<Rightarrow> ('w, 'd) state \<Rightarrow> 'd AgentResult option list \<times> ('w, 'd) state" where
  "gather tasks input_data [] slots st = (slots, st)"
| "gather tasks input_data (i # schedule) slots st =
     (let (result, st1) = execute (fst (tasks ! i)) input_data (Some (snd (tasks ! i))) st
      in gather tasks input_data schedule (slots[i := Some result]) st1)"

definition execute_parallel ::
  "('w, 'd) agent list \<Rightarrow> pyval \<Rightarrow> nat option \<Rightarrow> nat list \<Rightarrow> ('w, 'd) state
     \<Rightarrow> 'd AgentResult list option \<times> ('w, 'd) state" where
  "execute_parallel agents input_data context schedule st =
     (let (self_context, st1) = or_empty context st;
          (tasks, st2) = make_tasks agents self_context st1;
          (slots, st3) = gather tasks input_data schedule (replicate (length tasks) None) st2
      in (those slots, st3))"

text \<open>
  \<open>sum(...)\<close> adds from the left, starting at 0. No law of addition is assumed of the
  type of durations, which in the program is floating point.
\<close>

definition pysum :: "('d::{zero,plus}) list \<Rightarrow> 'd" where
  "pysum xs = foldl (\<lambda>acc x. acc + x) 0 xs"

text \<open>A dictionary comprehension: the pairs are stored one after the other.\<close>

definition dict_of :: "(string \<times> pyval) list \<Rightarrow> dict" where
  "dict_of kvs = foldl (\<lambda>d kv. dict_set (fst kv) (snd kv) d) [] kvs"

definition execute_map_reduce ::
  "('w, 'd::{zero,plus}) agent list \<Rightarrow> pyval \<Rightarrow> ('w, 'd) agent \<Rightarrow> nat option \<Rightarrow> nat list
     \<Rightarrow> ('w, 'd) state \<Rightarrow> 'd AgentResult option \<times> ('w, 'd) state" where
  "execute_map_reduce agents input_data reducer context schedule st =
     (case execute_parallel agents input_data context schedule st of
        (None, st1) \<Rightarrow> (None, st1)
      | (Some map_results, st1) \<Rightarrow>
          (let successful_results = filter success map_results
           in if successful_results = []
              then (Some \<lparr>agent_name = ''map_reduce'', success = False, data = PNone,
                          error = Some ''All map agents failed'',
                          duration_ms = pysum (map duration_ms map_results),
                          metadata = [(''failed_agents'',
                             PList (map (\<lambda>r. PStr (agent_name r))
                                      (filter (\<lambda>r. \<not> success r) map_results)))]\<rparr>, st1)
              else (let reduce_input = PDict
                          [(''results'', PList (map data successful_results)),
                           (''metadata'', PDict (dict_of
                              (map (\<lambda>r. (agent_name r, PDict (metadata r))) successful_results)))];
                        (result, st2) = execute reducer reduce_input context st1
                    in (Some result, st2))))"

subsection \<open>ChainableAgent\<close>

text \<open>
  The \<open>while\<close> loop of \<open>execute_chain\<close>. It follows \<open>next_agent\<close> links for as long as
  agents succeed, so on a cyclic chain of agents that always succeed it does not return:
  the result is \<open>None\<close> then. Every agent is handed the caller's \<open>context\<close> itself.
\<close>

partial_function (option) chain_loop ::
  "('w, 'd) agent \<Rightarrow> pyval \<Rightarrow> nat option \<Rightarrow> 'd AgentResult list \<Rightarrow> ('w, 'd) state
     \<Rightarrow> ('d AgentResult list \<times> ('w, 'd) state) option" where
  "chain_loop current_agent current_input context results st =
     (let (result, st1) = execute current_agent current_input context st;
          results' = results @ [result]
      in if \<not> success result then Some (results', st1)
         else case next_agent st1 (ref current_agent) of
                None \<Rightarrow> Some (results', st1)
              | Some nxt \<Rightarrow> chain_loop nxt (data result) context results' st1)"

definition execute_chain ::
  "('w, 'd) agent \<Rightarrow> pyval \<Rightarrow> nat option \<Rightarrow> ('w, 'd) state
     \<Rightarrow> ('d AgentResult list \<times> ('w, 'd) state) option" where
  "execute_chain self input_data context st = chain_loop self input_data context [] st"

section \<open>Workflow driver (backend/api/research.py)\<close>

text \<open>
  \<open>execute_research\<close> runs six concrete agents one after the other and reports each phase
  to the stage tracker. The agents are constructed inside the function; what they compute
  is outside the orchestration core, so they are parameters here.
\<close>

record ResearchRequest =
  query :: string
  output_format :: string
  include_sources :: bool
  max_sources :: int
  enable_validation :: bool
  stream_response :: bool

record ('w, 'd) research_agents =
  query_analyzer :: "('w, 'd) agent"
  web_search :: "('w, 'd) agent"
  content_extractor :: "('w, 'd) agent"
  insight_generator :: "('w, 'd) agent"
  report_formatter :: "('w, 'd) agent"
  validator :: "('w, 'd) agent"

text \<open>
  The operations the driver applies to agent payloads, with the exception each raises on a
  payload of the wrong kind (its message stands for \<open>str(e)\<close>).
\<close>

fun type_name :: "pyval \<Rightarrow> string" where
  "type_name PNone = ''NoneType''"
| "type_name (PBool b) = ''bool''"
| "type_name (PInt i) = ''int''"
| "type_name (PStr s) = ''str''"
| "type_name (PList xs) = ''list''"
| "type_name (PDict d) = ''dict''"

definition slice_to :: "int \<Rightarrow> 'a list \<Rightarrow> 'a list" where
  "slice_to k xs = (if k < 0 then take (nat (int (length xs) + k)) xs else take (nat k) xs)"

fun py_slice :: "pyval \<Rightarrow> int \<Rightarrow> string + pyval" where
  "py_slice (PList xs) k = Inr (PList (slice_to k xs))"
| "py_slice (PStr s) k = Inr (PStr (slice_to k s))"
| "py_slice (PDict d) k = Inl (''unhashable type: '' @ [CHR 0x27] @ ''slice'' @ [CHR 0x27])"
| "py_slice v k = Inl ([CHR 0x27] @ type_name v @ [CHR 0x27] @ '' object is not subscriptable'')"

fun py_len :: "pyval \<Rightarrow> string + int" where
  "py_len (PList xs) = Inr (int (length xs))"
| "py_len (PStr s) = Inr (int (length s))"
| "py_len (PDict d) = Inr (int (length d))"
| "py_len v = Inl (''object of type '' @ [CHR 0x27] @ type_name v @ [CHR 0x27] @ '' has no len()'')"

fun py_get :: "pyval \<Rightarrow> string \<Rightarrow> pyval \<Rightarrow> string + pyval" where
  "py_get (PDict d) k dflt = Inr (case map_of d k of None \<Rightarrow> dflt | Some v \<Rightarrow> v)"
| "py_get v k dflt =
     Inl ([CHR 0x27] @ type_name v @ [CHR 0x27] @ '' object has no attribute '' @ [CHR 0x27] @ ''get'' @ [CHR 0x27])"

text \<open>How an f-string prints an optional string.\<close>

definition shown :: "string option \<Rightarrow> string" where
  "shown e = (case e of None \<Rightarrow> ''None'' | Some s \<Rightarrow> s)"

text \<open>
  What a status poll would see of a record: its status and progress. The driver state carries,
  besides the program state and the storage, the list of these readings taken after each
  call of \<open>update_research_status\<close>; the list is not part of the program.
\<close>

definition status_line :: "entry \<Rightarrow> (string \<times> int) option" where
  "status_line e =
     (case e ''status'' of
        Some (Val (PStr s)) \<Rightarrow>
          (case e ''progress'' of Some (Val (PInt p)) \<Rightarrow> Some (s, p) | _ \<Rightarrow> None)
      | _ \<Rightarrow> None)"

definition tracked :: "storage \<Rightarrow> string \<Rightarrow> (string \<times> int) option" where
  "tracked research_storage research_id =
     (case research_storage research_id of None \<Rightarrow> None | Some e \<Rightarrow> status_line e)"

type_synonym ('w, 'd) driver = "('w, 'd) state \<times> storage \<times> (string \<times> int) option list"

text \<open>
  Steps of the \<open>try\<close> block: each returns a value or raises, and the first exception ends
  the block. The exception is represented by \<open>str(e)\<close>, all the handler uses.
\<close>

definition finish :: "'a \<Rightarrow> ('w, 'd) driver \<Rightarrow> (string + 'a) \<times> ('w, 'd) driver" where
  "finish v ds = (Inr v, ds)"

definition lift :: "string + 'a \<Rightarrow> ('w, 'd) driver \<Rightarrow> (string + 'a) \<times> ('w, 'd) driver" where
  "lift x ds = (x, ds)"

definition unless :: "bool \<Rightarrow> string \<Rightarrow> ('w, 'd) driver \<Rightarrow> (string + unit) \<times> ('w, 'd) driver" where
  "unless ok msg ds = (if ok then (Inr (), ds) else (Inl msg, ds))"

definition then_do ::
  "(('w, 'd) driver \<Rightarrow> (string + 'a) \<times> ('w, 'd) driver) \<Rightarrow>
   ('a \<Rightarrow> ('w, 'd) driver \<Rightarrow> (string + 'b) \<times> ('w, 'd) driver) \<Rightarrow>
   ('w, 'd) driver \<Rightarrow> (string + 'b) \<times> ('w, 'd) driver" where
  "then_do m f ds = (case m ds of (Inl e, ds') \<Rightarrow> (Inl e, ds') | (Inr v, ds') \<Rightarrow> f v ds')"

text \<open>A call of \<open>update_research_status\<close>; \<open>utcnow\<close> reads the clock of the world.\<close>

definition set_status ::
  "('w \<Rightarrow> nat) \<Rightarrow> string \<Rightarrow> string \<Rightarrow> int \<Rightarrow> string \<Rightarrow> ('w, 'd) driver
     \<Rightarrow> (string + unit) \<times> ('w, 'd) driver" where
  "set_status utcnow research_id phase percent msg ds =
     (case ds of (st, research_storage, history) \<Rightarrow>
        (let research_storage' = update_research_status research_id phase percent msg
                                   (utcnow (world st)) research_storage
         in (Inr (), (st, research_storage', history @ [tracked research_storage' research_id]))))"

text \<open>\<open>await agent.execute(input)\<close>, with no context argument.\<close>

definition run_agent ::
  "('w, 'd) agent \<Rightarrow> pyval \<Rightarrow> ('w, 'd) driver \<Rightarrow> (string + 'd AgentResult) \<times> ('w, 'd) driver" where
  "run_agent a input_data ds =
     (case ds of (st, research_storage, history) \<Rightarrow>
        (let (result, st') = execute a input_data None st
         in (Inr result, (st', research_storage, history))))"

text \<open>
  Phase 6. A failed validation is not an error: the report stays as formatted. The result is
  the pair of \<open>final_report\<close> and \<open>validation_data\<close>.
\<close>

definition validation_phase ::
  "('w \<Rightarrow> nat) \<Rightarrow> ('w, 'd) research_agents \<Rightarrow> string \<Rightarrow> ResearchRequest \<Rightarrow> pyval \<Rightarrow> pyval
     \<Rightarrow> ('w, 'd) driver \<Rightarrow> (string + pyval \<times> pyval) \<times> ('w, 'd) driver" where
  "validation_phase utcnow agents research_id request final_report sources =
     (if enable_validation request
      then then_do (set_status utcnow research_id ''validating'' 95 ''Validating results...'') (\<lambda>_.
           then_do (run_agent (validator agents)
                      (PDict [(''report'', final_report), (''sources'', sources)])) (\<lambda>validation_result.
           if success validation_result
           then then_do (lift (py_get (data validation_result) ''report'' final_report)) (\<lambda>report.
                finish (report, data validation_result))
           else finish (final_report, PDict [])))
      else finish (final_report, PDict []))"

definition agents_used :: "ResearchRequest \<Rightarrow> pyval" where
  "agents_used request =
     PList ([PStr ''QueryAnalyzer'', PStr ''WebSearch'', PStr ''ContentExtractor'',
             PStr ''InsightGenerator'', PStr ''ReportFormatter'']
            @ (if enable_validation request then [PStr ''Validation''] else []))"

text \<open>The body of the \<open>try\<close> block.\<close>

definition research_workflow ::
  "('w \<Rightarrow> nat) \<Rightarrow> ('w, 'd) research_agents \<Rightarrow> string \<Rightarrow> ResearchRequest
     \<Rightarrow> ('w, 'd) driver \<Rightarrow> (string + pyval) \<times> ('w, 'd) driver" where
  "research_workflow utcnow agents research_id request =
     then_do (set_status utcnow research_id ''analyzing'' 10 ''Analyzing query...'') (\<lambda>_.
     then_do (run_agent (query_analyzer agents) (PStr (query request))) (\<lambda>analysis_result.
     then_do (unless (success analysis_result)
                (''Query analysis failed: '' @ shown (error analysis_result))) (\<lambda>_.
     then_do (set_status utcnow research_id ''searching'' 25 ''Searching for information...'') (\<lambda>_.
     then_do (run_agent (web_search agents) (data analysis_result)) (\<lambda>search_result.
     then_do (unless (success search_result)
                (''Web search failed: '' @ shown (error search_result))) (\<lambda>_.
     then_do (set_status utcnow research_id ''extracting'' 40 ''Extracting content...'') (\<lambda>_.
     then_do (lift (py_slice (data search_result) (max_sources request))) (\<lambda>sources.
     then_do (run_agent (content_extractor agents) sources) (\<lambda>extraction_result.
     then_do (unless (success extraction_result)
                (''Content extraction failed: '' @ shown (error extraction_result))) (\<lambda>_.
     then_do (set_status utcnow research_id ''analyzing'' 60 ''Generating insights...'') (\<lambda>_.
     then_do (run_agent (insight_generator agents)
                (PDict [(''content'', data extraction_result),
                        (''analysis_params'', data analysis_result)])) (\<lambda>insight_result.
     then_do (unless (success insight_result)
                (''Insight generation failed: '' @ shown (error insight_result))) (\<lambda>_.
     then_do (set_status utcnow research_id ''formatting'' 80 ''Formatting report...'') (\<lambda>_.
     then_do (run_agent (report_formatter agents)
                (PDict [(''insights'', data insight_result),
                        (''metadata'', PDict
                           [(''query'', PStr (query request)),
                            (''sources'', if include_sources request
                                          then data extraction_result else PList [])])])) (\<lambda>format_result.
     then_do (unless (success format_result)
                (''Report formatting failed: '' @ shown (error format_result))) (\<lambda>_.
     then_do (validation_phase utcnow agents research_id request
                (data format_result) (data extraction_result)) (\<lambda>validated.
     then_do (set_status utcnow research_id ''completed'' 100 ''Research completed'') (\<lambda>_.
     then_do (lift (py_len (data search_result))) (\<lambda>sources_found.
     then_do (lift (py_len (data extraction_result))) (\<lambda>sources_analyzed.
     finish (PDict
       [(''success'', PBool True),
        (''report'', fst validated),
        (''metadata'', PDict
           [(''analysis'', data analysis_result),
            (''sources_found'', PInt sources_found),
            (''sources_analyzed'', PInt sources_analyzed),
            (''validation'', snd validated),
            (''agents_used'', agents_used request)])])))))))))))))))))))))"

text \<open>The \<open>except Exception\<close> handler records the failure and returns the error result.\<close>

definition execute_research ::
  "('w \<Rightarrow> nat) \<Rightarrow> ('w, 'd) research_agents \<Rightarrow> string \<Rightarrow> ResearchRequest
     \<Rightarrow> ('w, 'd) driver \<Rightarrow> pyval \<times> ('w, 'd) driver" where
  "execute_research utcnow agents research_id request ds =
     (case research_workflow utcnow agents research_id request ds of
        (Inr result, ds') \<Rightarrow> (result, ds')
      | (Inl e, ds') \<Rightarrow>
          (PDict [(''success'', PBool False), (''report'', PStr ''''),
                  (''metadata'', PDict []), (''error'', PStr e)],
           snd (set_status utcnow research_id ''failed'' 0 e ds')))"

section \<open>Notions used in the statements\<close>

text \<open>
  The contents of the mapping a caller passes: those of the dictionary at the address, or
  nothing when no context is passed.
\<close>

definition passed :: "nat option \<Rightarrow> ('w, 'd) state \<Rightarrow> dict" where
  "passed context st = (case context of None \<Rightarrow> [] | Some c \<Rightarrow> dicts st c)"

text \<open>A context reference is well-formed in a state when its dictionary exists there.\<close>

definition allocated :: "nat option \<Rightarrow> ('w, 'd) state \<Rightarrow> bool" where
  "allocated context st = (case context of None \<Rightarrow> True | Some a \<Rightarrow> a < next_addr st)"

text \<open>The calls of \<open>execute\<close> made between an earlier and a later state.\<close>

definition new_calls :: "('w, 'd) state \<Rightarrow> ('w, 'd) state \<Rightarrow> 'd call list" where
  "new_calls st st' = drop (length (calls st)) (calls st')"

text \<open>The envelope \<open>execute\<close> returns for a given run of the core computation.\<close>

definition envelope :: "('w, 'd) agent \<Rightarrow> ('w, 'd) run \<Rightarrow> 'd AgentResult" where
  "envelope self r =
     (let md = [(''agent_id'', PStr (agent_id self)),
                (''context_keys'', PList (map PStr (keys (context_after r))))]
      in case outcome r of
           Returned v \<Rightarrow>
             \<lparr>agent_name = name self, success = True, data = v, error = None,
              duration_ms = elapsed_ms r, metadata = md\<rparr>
         | DeadlineExceeded \<Rightarrow> failed self (timeout_message self) (elapsed_ms r) md
         | Raised AsyncTimeoutError \<Rightarrow> failed self (timeout_message self) (elapsed_ms r) md
         | Raised (Exception msg) \<Rightarrow> failed self msg (elapsed_ms r) md)"

text \<open>
  The context \<open>execute_sequential\<close> hands to the next agent, given the shared context and
  the envelopes so far; and the sequence of calls a sequential run makes, followed without
  the store: each agent starts from that context and from the world its predecessor left.
\<close>

definition context_for :: "dict \<Rightarrow> 'd AgentResult list \<Rightarrow> dict" where
  "context_for shared results =
     (if results \<noteq> []
      then dict_set ''previous_results'' (PList (map data (filter success results))) shared
      else shared)"

fun sequential_trace ::
  "('w, 'd) agent list \<Rightarrow> dict \<Rightarrow> 'd AgentResult list \<Rightarrow> pyval \<Rightarrow> 'w \<Rightarrow> 'd call list \<times> 'w" where
  "sequential_trace [] shared results current_input w = ([], w)"
| "sequential_trace (agent # rest) shared results current_input w =
     (let r = core agent current_input (context_for shared results) w;
          c = \<lparr>callee = ref agent, call_input = current_input,
               call_context = context_for shared results, returned = envelope agent r\<rparr>
      in if \<not> success (envelope agent r) then ([c], world_after r)
         else (let (cs, w') = sequential_trace rest shared (results @ [envelope agent r])
                                 (data (envelope agent r)) (world_after r)
               in (c # cs, w')))"

text \<open>The input the reducer receives, built from the map results.\<close>

definition reduce_input :: "'d AgentResult list \<Rightarrow> pyval" where
  "reduce_input map_results =
     PDict [(''results'', PList (map data (filter success map_results))),
            (''metadata'', PDict (dict_of
                (map (\<lambda>r. (agent_name r, PDict (metadata r))) (filter success map_results))))]"

text \<open>
  An agent is blind to its context when its computation neither depends on the context nor
  writes it. An envelope or a call is compared up to the context by erasing the metadata
  and the recorded context.
\<close>

definition context_blind :: "('w, 'd) agent \<Rightarrow> bool" where
  "context_blind a = (\<forall>i d w. core a i d w = (core a i [] w)\<lparr>context_after := d\<rparr>)"

definition strip :: "'d AgentResult \<Rightarrow> 'd AgentResult" where
  "strip r = r\<lparr>metadata := []\<rparr>"

definition erase :: "'d call \<Rightarrow> 'd call" where
  "erase c = c\<lparr>call_context := [], returned := strip (returned c)\<rparr>"

text \<open>
  A chain built with \<open>then\<close>: each agent of the list is linked to the next, and the last
  has no successor. Such a chain is finite and has no cycle.
\<close>

fun linked :: "('w, 'd) state \<Rightarrow> ('w, 'd) agent list \<Rightarrow> bool" where
  "linked st [] = False"
| "linked st [a] = (next_agent st (ref a) = None)"
| "linked st (a # b # rest) = (next_agent st (ref a) = Some b \<and> linked st (b # rest))"

text \<open>
  What a run of context-blind agents one after the other does, whoever drives it: the calls
  up to the context, and the world at the end.
\<close>

fun pipeline :: "('w, 'd) agent list \<Rightarrow> pyval \<Rightarrow> 'w \<Rightarrow> ('d call list) \<times> 'w" where
  "pipeline [] current_input w = ([], w)"
| "pipeline (a # rest) current_input w =
     (let r = core a current_input [] w;
          c = \<lparr>callee = ref a, call_input = current_input, call_context = [],
               returned = strip (envelope a r)\<rparr>
      in if \<not> success (envelope a r) then ([c], world_after r)
         else (let (cs, w') = pipeline rest (data (envelope a r)) (world_after r)
               in (c # cs, w')))"

text \<open>
  The storage and the readings in a driver state; a run of the workflow is successful when
  its result says so; \<open>post m P Q\<close>: from a state with \<open>P\<close>, if the step \<open>m\<close> does not
  raise, it ends in a state with \<open>Q\<close>.
\<close>

definition stor :: "('w, 'd) driver \<Rightarrow> storage" where
  "stor ds = fst (snd ds)"

definition hist :: "('w, 'd) driver \<Rightarrow> (string \<times> int) option list" where
  "hist ds = snd (snd ds)"

definition succeeded :: "pyval \<Rightarrow> bool" where
  "succeeded result =
     (case result of PDict d \<Rightarrow> map_of d ''success'' = Some (PBool True) | _ \<Rightarrow> False)"

definition at_history :: "string \<Rightarrow> (string \<times> int) option list \<Rightarrow> ('w, 'd) driver \<Rightarrow> bool" where
  "at_history research_id H ds = (research_id \<in> dom (stor ds) \<and> hist ds = H)"

definition post ::
  "(('w, 'd) driver \<Rightarrow> (string + 'a) \<times> ('w, 'd) driver) \<Rightarrow> (('w, 'd) driver \<Rightarrow> bool)
     \<Rightarrow> (('w, 'd) driver \<Rightarrow> bool) \<Rightarrow> bool" where
  "post m P Q = (\<forall>ds v ds'. P ds \<longrightarrow> m ds = (Inr v, ds') \<longrightarrow> Q ds')"

section \<open>Example agents and states\<close>

text \<open>
  Agents over a world that counts the computations run, with durations in whole
  milliseconds: \<open>double\<close> doubles a number, \<open>triple\<close> triples it, \<open>fail\<close> always raises,
  \<open>noter\<close> returns its input and notes in its context that it ran. Two agents share the
  name \<open>worker\<close>. \<open>collect\<close> returns what it is given.
\<close>

definition double :: "(nat, int) agent" where
  "double = \<lparr>ref = 1, name = ''double'', agent_id = ''double_1a2b3c4d'', timeout = 30,
     core = (\<lambda>i d w. \<lparr>outcome = (case i of PInt n \<Rightarrow> Returned (PInt (2 * n))
                                   | _ \<Rightarrow> Raised (Exception ''not a number'')),
                       elapsed_ms = 50, context_after = d, world_after = Suc w\<rparr>)\<rparr>"

definition fail :: "(nat, int) agent" where
  "fail = \<lparr>ref = 2, name = ''fail'', agent_id = ''fail_5e6f7a8b'', timeout = 30,
     core = (\<lambda>i d w. \<lparr>outcome = Raised (Exception ''boom''),
                       elapsed_ms = 10, context_after = d, world_after = Suc w\<rparr>)\<rparr>"

definition triple :: "(nat, int) agent" where
  "triple = \<lparr>ref = 3, name = ''triple'', agent_id = ''triple_9c0d1e2f'', timeout = 30,
     core = (\<lambda>i d w. \<lparr>outcome = (case i of PInt n \<Rightarrow> Returned (PInt (3 * n))
                                   | _ \<Rightarrow> Raised (Exception ''not a number'')),
                       elapsed_ms = 20, context_after = d, world_after = Suc w\<rparr>)\<rparr>"

definition slow :: "(nat, int) agent" where
  "slow = \<lparr>ref = 4, name = ''slow'', agent_id = ''slow_0a1b2c3d'', timeout = 1,
     core = (\<lambda>i d w. \<lparr>outcome = DeadlineExceeded,
                       elapsed_ms = 1000, context_after = d, world_after = Suc w\<rparr>)\<rparr>"

definition noter :: "(nat, int) agent" where
  "noter = \<lparr>ref = 5, name = ''noter'', agent_id = ''noter_4e5f6a7b'', timeout = 30,
     core = (\<lambda>i d w. \<lparr>outcome = Returned i, elapsed_ms = 1,
                       context_after = dict_set ''seen'' (PBool True) d,
                       world_after = Suc w\<rparr>)\<rparr>"

definition worker_a :: "(nat, int) agent" where
  "worker_a = \<lparr>ref = 6, name = ''worker'', agent_id = ''worker_00000001'', timeout = 30,
     core = (\<lambda>i d w. \<lparr>outcome = Returned (PStr ''a''), elapsed_ms = 5,
                       context_after = d, world_after = Suc w\<rparr>)\<rparr>"

definition worker_b :: "(nat, int) agent" where
  "worker_b = \<lparr>ref = 7, name = ''worker'', agent_id = ''worker_00000002'', timeout = 30,
     core = (\<lambda>i d w. \<lparr>outcome = Returned (PStr ''b''), elapsed_ms = 7,
                       context_after = d, world_after = Suc w\<rparr>)\<rparr>"

definition collect :: "(nat, int) agent" where
  "collect = \<lparr>ref = 8, name = ''collect'', agent_id = ''collect_8c9d0e1f'', timeout = 30,
     core = (\<lambda>i d w. \<lparr>outcome = Returned i, elapsed_ms = 2,
                       context_after = d, world_after = Suc w\<rparr>)\<rparr>"

text \<open>
  A state in which the caller holds the context \<open>{"topic": "rust"}\<close> at address 0, every
  agent has the empty context its constructor made, and no computation has run; and the
  same state after \<open>double.then(triple)\<close>.
\<close>

definition state0 :: "(nat, int) state" where
  "state0 = \<lparr>dicts = (\<lambda>a. if a = 0 then [(''topic'', PStr ''rust'')] else []), next_addr = 9,
     context_of = (\<lambda>r. r), next_agent = Map.empty, world = 0, calls = []\<rparr>"

definition chained0 :: "(nat, int) state" where
  "chained0 = state0\<lparr>next_agent := [1 \<mapsto> triple]\<rparr>"

text \<open>
  A workflow whose six agents each return a fixed payload, a request with validation
  enabled, the storage as \<open>create_research_query\<close> leaves it for the id \<open>r1\<close>, and a clock.
\<close>

definition fixed_agent :: "nat \<Rightarrow> string \<Rightarrow> int \<Rightarrow> pyval \<Rightarrow> (nat, int) agent" where
  "fixed_agent r n t v = \<lparr>ref = r, name = n, agent_id = n @ ''_0badcafe'', timeout = t,
     core = (\<lambda>i d w. \<lparr>outcome = Returned v, elapsed_ms = 1,
                       context_after = d, world_after = Suc w\<rparr>)\<rparr>"

definition agents0 :: "(nat, int) research_agents" where
  "agents0 = \<lparr>
     query_analyzer = fixed_agent 1 ''QueryAnalyzer'' 10 (PDict [(''topic'', PStr ''rust'')]),
     web_search = fixed_agent 2 ''WebSearch'' 30 (PList [PStr ''u1'', PStr ''u2'']),
     content_extractor = fixed_agent 3 ''ContentExtractor'' 60 (PList [PStr ''c1'', PStr ''c2'']),
     insight_generator = fixed_agent 4 ''InsightGenerator'' 45 (PDict [(''summary'', PStr ''s'')]),
     report_formatter = fixed_agent 5 ''ReportFormatter'' 20 (PStr ''# Report''),
     validator = fixed_agent 6 ''Validation'' 30 (PDict [(''is_valid'', PBool True)])\<rparr>"

definition request0 :: ResearchRequest where
  "request0 = \<lparr>query = ''what is new in rust'', output_format = ''markdown'',
     include_sources = True, max_sources = 10, enable_validation = True,
     stream_response = False\<rparr>"

definition storage0 :: storage where
  "storage0 = [''r1'' \<mapsto> initial_entry ''r1'' ''what is new in rust'' (PStr ''anonymous'') 3 3]"

definition clock0 :: "nat \<Rightarrow> nat" where
  "clock0 w = 100 + w"

section \<open>Properties of the stage tracker\<close>

lemma update_unknown:
  "research_storage research_id = None \<Longrightarrow>
   update_research_status research_id s p m now research_storage = research_storage"
  by (simp add: update_research_status_def)

lemma update_known_entry:
  "research_storage research_id = Some e \<Longrightarrow>
   update_research_status research_id s p m now research_storage research_id =
     Some (e(''status'' \<mapsto> Val (PStr s), ''progress'' \<mapsto> Val (PInt p),
             ''message'' \<mapsto> Val (PStr m), ''updated_at'' \<mapsto> Time now))"
  by (simp add: update_research_status_def)

lemma update_other_entry:
  "r \<noteq> research_id \<Longrightarrow>
   update_research_status research_id s p m now research_storage r = research_storage r"
  by (simp add: update_research_status_def split: option.splits)

lemma get_unknown:
  "research_storage research_id = None \<Longrightarrow>
   get_research_status research_storage research_id = Inl (NameError ''ResourceNotFoundError'')"
  by (simp add: get_research_status_def raise_global_def research_module_names_def)

lemma get_known:
  assumes "research_storage research_id = Some ent"
    and "ent ''id'' = Some (Val (PStr i))"
    and "ent ''status'' = Some (Val (PStr s))"
    and "ent ''progress'' = Some (Val (PInt p))"
    and "ent ''message'' = Some (Val (PStr m))"
    and "ent ''created_at'' = Some (Time c)"
    and "ent ''updated_at'' = Some (Time u)"
  shows "get_research_status research_storage research_id =
           Inr \<lparr>id = i, status = s, progress = p, message = m, created_at = c, updated_at = u\<rparr>"
  using assms
  by (simp add: get_research_status_def build_status_def and_then_def subscript_def
      get_default_def)

text \<open>
  Reading back what was written: after an update of a known, well-formed entry the snapshot
  carries the status, progress and message just written and the time of the update.
\<close>

lemma get_after_update:
  assumes "research_storage research_id = Some e"
    and "e ''id'' = Some (Val (PStr i))"
    and "e ''created_at'' = Some (Time c)"
  shows "get_research_status
           (update_research_status research_id s p m now research_storage) research_id =
         Inr \<lparr>id = i, status = s, progress = p, message = m, created_at = c, updated_at = now\<rparr>"
  by (rule get_known [where ent = "e(''status'' \<mapsto> Val (PStr s), ''progress'' \<mapsto> Val (PInt p),
             ''message'' \<mapsto> Val (PStr m), ''updated_at'' \<mapsto> Time now)"])
     (simp_all add: assms update_known_entry)

section \<open>Properties of the agents\<close>

lemma or_empty_contents: "dicts (snd (or_empty context st)) (fst (or_empty context st)) = passed context st"
  by (auto simp: or_empty_def new_dict_def passed_def split: option.splits)

lemma execute_fst:
  "fst (execute self input_data context st) =
     envelope self (core self input_data (passed context st) (world st))"
  by (auto simp: execute_def envelope_def get_metadata_def Let_def passed_def or_empty_def new_dict_def
       split: prod.splits option.splits outcome.splits exn.splits)

lemma execute_world:
  "world (snd (execute self input_data context st)) =
     world_after (core self input_data (passed context st) (world st))"
  by (auto simp: execute_def Let_def passed_def or_empty_def new_dict_def
       split: prod.splits option.splits)

lemma execute_calls:
  "calls (snd (execute self input_data context st)) =
     calls st @ [\<lparr>callee = ref self, call_input = input_data,
                  call_context = passed context st,
                  returned = fst (execute self input_data context st)\<rparr>]"
  by (auto simp: execute_def Let_def passed_def or_empty_def new_dict_def
       split: prod.splits option.splits)

lemma execute_next_agent: "next_agent (snd (execute self input_data context st)) = next_agent st"
  by (auto simp: execute_def Let_def or_empty_def new_dict_def split: prod.splits option.splits)

lemma execute_next_addr: "next_addr st \<le> next_addr (snd (execute self input_data context st))"
  by (auto simp: execute_def Let_def or_empty_def new_dict_def split: prod.splits option.splits)

lemma execute_dicts_other:
  "a < next_addr st \<Longrightarrow> context \<noteq> Some a \<Longrightarrow>
   dicts (snd (execute self input_data context st)) a = dicts st a"
  by (auto simp: execute_def Let_def or_empty_def new_dict_def split: prod.splits option.splits)

lemma sequential_loop_trace:
  "self_context < next_addr st \<Longrightarrow>
   sequential_loop agents self_context results current_input st = (rs, st') \<Longrightarrow>
   sequential_trace agents (dicts st self_context) results current_input (world st) = (cs, w') \<Longrightarrow>
   rs = results @ map returned cs \<and> calls st' = calls st @ cs \<and> world st' = w'
     \<and> dicts st' self_context = dicts st self_context \<and> next_addr st \<le> next_addr st'
     \<and> next_agent st' = next_agent st"
proof (induction agents arbitrary: results current_input st cs w' rs st')
  case Nil
  then show ?case by simp
next
  case (Cons agent rest)
  define ac where "ac = next_addr st"
  define st1 where "st1 = snd (new_dict (dicts st self_context) st)"
  define st2 where "st2 = (if results \<noteq> []
                 then st1\<lparr>dicts := (dicts st1)(ac :=
                        dict_set ''previous_results''
                          (PList (map data (filter success results)))
                          (dicts st1 ac))\<rparr>
                 else st1)"
  define r where "r = fst (execute agent current_input (Some ac) st2)"
  define st3 where "st3 = snd (execute agent current_input (Some ac) st2)"
  have nd: "new_dict (dicts st self_context) st = (ac, st1)"
    by (simp add: new_dict_def ac_def st1_def)
  have ne: "ac \<noteq> self_context" using Cons.prems(1) by (simp add: ac_def)
  have p2: "passed (Some ac) st2 = context_for (dicts st self_context) results"
    by (simp add: passed_def st2_def st1_def new_dict_def ac_def context_for_def)
  have w2: "world st2 = world st" "calls st2 = calls st" "next_addr st2 = Suc (next_addr st)"
       "next_agent st2 = next_agent st" "dicts st2 self_context = dicts st self_context"
    using ne by (simp_all add: st2_def st1_def new_dict_def ac_def)
  have r_eq: "r = envelope agent (core agent current_input (context_for (dicts st self_context) results) (world st))"
    by (simp add: r_def execute_fst p2 w2)
  have w3: "world st3 = world_after (core agent current_input (context_for (dicts st self_context) results) (world st))"
    by (simp add: st3_def execute_world p2 w2)
  have c3: "calls st3 = calls st @ [\<lparr>callee = ref agent, call_input = current_input,
                  call_context = context_for (dicts st self_context) results, returned = r\<rparr>]"
    by (simp add: st3_def execute_calls p2 w2 r_def)
  have d3: "dicts st3 self_context = dicts st self_context"
    using Cons.prems(1) ne by (simp add: st3_def execute_dicts_other w2)
  have n3: "next_addr st \<le> next_addr st3" "self_context < next_addr st3"
    using execute_next_addr [of st2 agent current_input "Some ac"] Cons.prems(1)
    by (simp_all add: st3_def w2)
  have a3: "next_agent st3 = next_agent st"
    by (simp add: st3_def execute_next_agent w2)
  have loop: "sequential_loop (agent # rest) self_context results current_input st =
      (if \<not> success r then (results @ [r], st3)
       else sequential_loop rest self_context (results @ [r]) (data r) st3)"
    by (simp add: nd st2_def r_def st3_def Let_def split: prod.splits)
  show ?case
  proof (cases "success r")
    case False
    then show ?thesis using Cons.prems(2,3) loop r_eq w3 c3 d3 n3 a3 by (auto simp: Let_def)
  next
    case True
    obtain cs2 w2' where tr: "sequential_trace rest (dicts st3 self_context) (results @ [r]) (data r) (world st3) = (cs2, w2')"
      by (cases "sequential_trace rest (dicts st3 self_context) (results @ [r]) (data r) (world st3)")
    have l2: "sequential_loop rest self_context (results @ [r]) (data r) st3 = (rs, st')"
      using Cons.prems(2) loop True by simp
    note ih = Cons.IH [OF n3(2) l2 tr]
    have "cs = \<lparr>callee = ref agent, call_input = current_input,
                  call_context = context_for (dicts st self_context) results, returned = r\<rparr> # cs2
          \<and> w' = w2'"
      using Cons.prems(3) True tr r_eq w3 d3 by (auto simp: Let_def)
    then show ?thesis using ih c3 d3 n3 a3 by auto
  qed
qed

lemma map_of_dict_set: "map_of (dict_set k v d) k' = (if k' = k then Some v else map_of d k')"
  by (induction d) auto

lemma envelope_name: "agent_name (envelope a r) = name a"
  by (simp add: envelope_def failed_def Let_def split: outcome.splits exn.splits)

lemma trace_length:
  "sequential_trace agents shared results cur w = (cs, w') \<Longrightarrow> length cs \<le> length agents"
  by (induction agents arbitrary: results cur w cs w')
     (auto simp: Let_def split: if_splits prod.splits)

lemma trace_callee:
  "sequential_trace agents shared results cur w = (cs, w') \<Longrightarrow>
   map callee cs = map ref (take (length cs) agents)"
  by (induction agents arbitrary: results cur w cs w')
     (auto simp: Let_def split: if_splits prod.splits)

lemma trace_names:
  "sequential_trace agents shared results cur w = (cs, w') \<Longrightarrow>
   map (\<lambda>c. agent_name (returned c)) cs = map name (take (length cs) agents)"
proof (induction agents arbitrary: results cur w cs w')
  case Nil then show ?case by simp
next
  case (Cons a rest)
  from Cons show ?case
    by (auto simp: Let_def envelope_name split: if_splits prod.splits)
qed

lemma trace_input:
  "sequential_trace agents shared results cur w = (cs, w') \<Longrightarrow>
   map call_input cs = take (length cs) (cur # map (\<lambda>c. data (returned c)) cs)"
  by (induction agents arbitrary: results cur w cs w')
     (auto simp: Let_def split: if_splits prod.splits)

lemma trace_success:
  "sequential_trace agents shared results cur w = (cs, w') \<Longrightarrow>
   Suc k < length cs \<Longrightarrow> success (returned (cs ! k))"
proof (induction agents arbitrary: results cur w cs w' k)
  case Nil then show ?case by simp
next
  case (Cons a rest)
  then show ?case
    by (cases k) (auto simp: Let_def split: if_splits prod.splits)
qed

lemma trace_stop:
  "sequential_trace agents shared results cur w = (cs, w') \<Longrightarrow>
   length cs < length agents \<Longrightarrow> cs \<noteq> [] \<and> \<not> success (returned (last cs))"
  by (induction agents arbitrary: results cur w cs w')
     (auto simp: Let_def split: if_splits prod.splits)

lemma trace_context:
  "sequential_trace agents shared results cur w = (cs, w') \<Longrightarrow>
   k < length cs \<Longrightarrow>
   call_context (cs ! k) = context_for shared (results @ map returned (take k cs))"
proof (induction agents arbitrary: results cur w cs w' k)
  case Nil then show ?case by simp
next
  case (Cons a rest)
  then show ?case
    by (cases k) (auto simp: Let_def split: if_splits prod.splits)
qed

lemma or_empty_facts:
  assumes "allocated context st" "or_empty context st = (c, st1)"
  shows "c < next_addr st1" "dicts st1 c = passed context st" "calls st1 = calls st"
        "world st1 = world st" "next_agent st1 = next_agent st" "next_addr st \<le> next_addr st1"
        "\<And>a. a < next_addr st \<Longrightarrow> dicts st1 a = dicts st a"
  using assms
  by (auto simp: allocated_def or_empty_def new_dict_def passed_def split: option.splits if_splits)

lemma execute_sequential_trace:
  assumes "allocated context st"
    and "execute_sequential agents initial_input context st = (results, st')"
  shows "\<exists>cs. sequential_trace agents (passed context st) [] initial_input (world st) = (cs, world st')
            \<and> results = map returned cs \<and> calls st' = calls st @ cs"
proof -
  obtain c st1 where oe: "or_empty context st = (c, st1)" by (cases "or_empty context st")
  note f = or_empty_facts [OF assms(1) oe]
  have l: "sequential_loop agents c [] initial_input st1 = (results, st')"
    using assms(2) oe by (simp add: execute_sequential_def)
  obtain cs w' where t: "sequential_trace agents (dicts st1 c) [] initial_input (world st1) = (cs, w')"
    by (cases "sequential_trace agents (dicts st1 c) [] initial_input (world st1)")
  from sequential_loop_trace [OF f(1) l t] show ?thesis using t f(2,3,4) by auto
qed

lemma make_tasks_facts:
  "self_context < next_addr st \<Longrightarrow> make_tasks agents self_context st = (tasks, st') \<Longrightarrow>
   map fst tasks = agents
   \<and> distinct (map snd tasks)
   \<and> (\<forall>a \<in> set (map snd tasks). next_addr st \<le> a \<and> a < next_addr st'
                                     \<and> dicts st' a = dicts st self_context)
   \<and> next_addr st \<le> next_addr st'
   \<and> (\<forall>a < next_addr st. dicts st' a = dicts st a)
   \<and> calls st' = calls st \<and> world st' = world st \<and> next_agent st' = next_agent st"
proof (induction agents arbitrary: st tasks st')
  case Nil
  then show ?case by simp
next
  case (Cons agent rest)
  define st1 where "st1 = snd (new_dict (dicts st self_context) st)"
  have nd: "new_dict (dicts st self_context) st = (next_addr st, st1)"
    by (simp add: new_dict_def st1_def)
  obtain tasks2 st2 where mt: "make_tasks rest self_context st1 = (tasks2, st2)"
    by (cases "make_tasks rest self_context st1")
  have s1: "next_addr st1 = Suc (next_addr st)" "dicts st1 (next_addr st) = dicts st self_context"
      "\<And>a. a < next_addr st \<Longrightarrow> dicts st1 a = dicts st a"
      "calls st1 = calls st" "world st1 = world st" "next_agent st1 = next_agent st"
    by (simp_all add: st1_def new_dict_def)
  have sc1: "self_context < next_addr st1" using Cons.prems(1) s1(1) by simp
  note ih = Cons.IH [OF sc1 mt]
  have res: "tasks = (agent, next_addr st) # tasks2" "st' = st2"
    using Cons.prems(2) nd mt by simp_all
  have d_sc: "dicts st1 self_context = dicts st self_context" using s1(3) Cons.prems(1) by simp
  have fresh: "next_addr st \<notin> set (map snd tasks2)" using ih s1(1) by fastforce
  have here: "dicts st2 (next_addr st) = dicts st self_context" using ih s1(1,2) by simp
  have old: "\<forall>a < next_addr st. dicts st2 a = dicts st a" using ih s1(1,3) by simp
  have rest_ok: "\<forall>a \<in> set (map snd tasks2). next_addr st \<le> a \<and> a < next_addr st2
                                     \<and> dicts st2 a = dicts st self_context"
    using ih s1(1) d_sc by fastforce
  have le: "next_addr st < next_addr st2" using ih s1(1) by simp
  show ?case using ih fresh here old rest_ok le s1(4,5,6)
    by (simp add: res)
qed

lemma envelope_agent_id:
  "map_of (metadata (envelope a r)) ''agent_id'' = Some (PStr (agent_id a))"
  by (simp add: envelope_def failed_def Let_def split: outcome.splits exn.splits)

lemma gather_calls:
  "distinct schedule \<Longrightarrow> \<forall>k \<in> set schedule. k < length tasks \<Longrightarrow> distinct (map snd tasks) \<Longrightarrow>
   \<forall>k \<in> set schedule. snd (tasks ! k) < next_addr st \<and> dicts st (snd (tasks ! k)) = shared \<Longrightarrow>
   length slots = length tasks \<Longrightarrow>
   gather tasks input_data schedule slots st = (slots', st') \<Longrightarrow>
   length slots' = length slots
   \<and> calls st' = calls st @
        map (\<lambda>k. \<lparr>callee = ref (fst (tasks ! k)), call_input = input_data,
                   call_context = shared, returned = the (slots' ! k)\<rparr>) schedule
   \<and> (\<forall>k \<in> set schedule. \<exists>r. slots' ! k = Some r \<and> agent_name r = name (fst (tasks ! k))
           \<and> map_of (metadata r) ''agent_id'' = Some (PStr (agent_id (fst (tasks ! k)))))
   \<and> (\<forall>k. k \<notin> set schedule \<longrightarrow> slots' ! k = slots ! k)
   \<and> (\<forall>a < next_addr st. a \<notin> set (map snd tasks) \<longrightarrow> dicts st' a = dicts st a)
   \<and> next_addr st \<le> next_addr st'"
proof (induction schedule arbitrary: slots st slots' st')
  case Nil
  then show ?case by simp
next
  case (Cons k schedule)
  define c where "c = snd (tasks ! k)"
  define r where "r = fst (execute (fst (tasks ! k)) input_data (Some c) st)"
  define st1 where "st1 = snd (execute (fst (tasks ! k)) input_data (Some c) st)"
  have k: "k < length tasks" "k \<notin> set schedule" "distinct schedule"
    using Cons.prems(1,2) by simp_all
  have ck: "c < next_addr st" "dicts st c = shared" using Cons.prems(4) by (simp_all add: c_def)
  have g: "gather tasks input_data schedule (slots[k := Some r]) st1 = (slots', st')"
    using Cons.prems(6) by (simp add: c_def r_def st1_def split: prod.splits)
  have n1: "next_addr st \<le> next_addr st1"
    by (simp add: st1_def execute_next_addr)
  have other: "\<forall>j \<in> set schedule. snd (tasks ! j) < next_addr st1 \<and> dicts st1 (snd (tasks ! j)) = shared"
  proof
    fix j assume j: "j \<in> set schedule"
    then have jl: "j < length tasks" "j \<noteq> k" using Cons.prems(2) k(2) by auto
    have "snd (tasks ! j) \<noteq> snd (tasks ! k)"
      using Cons.prems(3) jl k(1) by (metis length_map nth_eq_iff_index_eq nth_map)
    moreover have "snd (tasks ! j) < next_addr st \<and> dicts st (snd (tasks ! j)) = shared"
      using Cons.prems(4) j by simp
    ultimately show "snd (tasks ! j) < next_addr st1 \<and> dicts st1 (snd (tasks ! j)) = shared"
      using n1 by (simp add: st1_def c_def execute_dicts_other)
  qed
  have len: "length (slots[k := Some r]) = length tasks" using Cons.prems(5) by simp
  have all: "\<forall>j \<in> set schedule. j < length tasks" using Cons.prems(2) by simp
  note ih = Cons.IH [OF k(3) all Cons.prems(3) other len g]
  have sk: "slots' ! k = Some r" using ih k(1,2) Cons.prems(5) by simp
  have rn: "agent_name r = name (fst (tasks ! k))"
       "map_of (metadata r) ''agent_id'' = Some (PStr (agent_id (fst (tasks ! k))))"
    by (simp_all add: r_def execute_fst envelope_name envelope_agent_id)
  have c1: "calls st1 = calls st @ [\<lparr>callee = ref (fst (tasks ! k)), call_input = input_data,
                  call_context = shared, returned = r\<rparr>]"
    by (simp add: st1_def r_def execute_calls passed_def ck)
  have frame: "\<forall>a < next_addr st. a \<notin> set (map snd tasks) \<longrightarrow> dicts st' a = dicts st a"
  proof (intro allI impI)
    fix a assume a: "a < next_addr st" "a \<notin> set (map snd tasks)"
    have "c \<in> set (map snd tasks)" using k(1) by (auto simp: c_def)
    then have "a \<noteq> c" using a(2) by auto
    then have "dicts st1 a = dicts st a" using a(1) by (simp add: st1_def execute_dicts_other)
    moreover have "dicts st' a = dicts st1 a" using ih a n1 by simp
    ultimately show "dicts st' a = dicts st a" by simp
  qed
  have keep: "\<forall>j. j \<notin> set (k # schedule) \<longrightarrow> slots' ! j = slots ! j"
    using ih by auto
  show ?case using ih sk rn c1 frame keep n1 Cons.prems(5) by auto
qed

lemma those_all_Some: "\<forall>x \<in> set xs. x \<noteq> None \<Longrightarrow> those xs = Some (map the xs)"
  by (induction xs) auto

lemma foldl_dict_set:
  "map_of (foldl (\<lambda>d kv. dict_set (fst kv) (snd kv) d) d0 kvs) k =
     (case map_of (rev kvs) k of Some v \<Rightarrow> Some v | None \<Rightarrow> map_of d0 k)"
  by (induction kvs arbitrary: d0)
     (auto simp: map_of_dict_set map_add_def split: option.splits)

lemma map_of_dict_of: "map_of (dict_of kvs) k = map_of (rev kvs) k"
  by (simp add: dict_of_def foldl_dict_set split: option.splits)

lemma map_of_rev_last:
  "map_of (rev (map (\<lambda>x. (f x, g x)) xs)) n =
     (if n \<in> f ` set xs then Some (g (last (filter (\<lambda>x. f x = n) xs))) else None)"
proof (induction xs rule: rev_induct)
  case Nil
  then show ?case by simp
next
  case (snoc x xs)
  then show ?case by (auto simp: image_iff)
qed

lemma name_to_metadata:
  "map_of (dict_of (map (\<lambda>r. (agent_name r, PDict (metadata r))) (filter success rs))) n =
     (if n \<in> agent_name ` {r \<in> set rs. success r}
      then Some (PDict (metadata (last (filter (\<lambda>r. success r \<and> agent_name r = n) rs))))
      else None)"
proof -
  have "filter (\<lambda>r. agent_name r = n) (filter success rs)
          = filter (\<lambda>r. success r \<and> agent_name r = n) rs"
    by (simp add: conj_commute)
  moreover have "set (filter success rs) = {r \<in> set rs. success r}" by simp
  ultimately show ?thesis
    using map_of_rev_last [of agent_name "\<lambda>r. PDict (metadata r)" "filter success rs" n]
    by (simp add: map_of_dict_of)
qed

lemma map_reduce_all_failed:
  assumes "execute_parallel agents input_data context schedule st = (Some map_results, st1)"
    and "\<forall>r \<in> set map_results. \<not> success r"
  shows "execute_map_reduce agents input_data reducer context schedule st =
           (Some \<lparr>agent_name = ''map_reduce'', success = False, data = PNone,
                   error = Some ''All map agents failed'',
                   duration_ms = pysum (map duration_ms map_results),
                   metadata = [(''failed_agents'',
                      PList (map (\<lambda>r. PStr (agent_name r)) map_results))]\<rparr>, st1)"
proof -
  have "filter success map_results = []" using assms(2) by (simp add: filter_empty_conv)
  moreover have "filter (\<lambda>r. \<not> success r) map_results = map_results" using assms(2) by simp
  ultimately show ?thesis by (simp add: execute_map_reduce_def assms(1))
qed

lemma map_reduce_some_succeeded:
  assumes "execute_parallel agents input_data context schedule st = (Some map_results, st1)"
    and "\<exists>r \<in> set map_results. success r"
  shows "execute_map_reduce agents input_data reducer context schedule st =
           (Some (fst (execute reducer (reduce_input map_results) context st1)),
            snd (execute reducer (reduce_input map_results) context st1))"
proof -
  have "filter success map_results \<noteq> []" using assms(2) by (simp add: filter_empty_conv)
  then show ?thesis
    by (simp add: execute_map_reduce_def assms(1) reduce_input_def Let_def split: prod.splits)
qed

lemma erase_call:
  "erase \<lparr>callee = a, call_input = i, call_context = c, returned = r\<rparr> =
     \<lparr>callee = a, call_input = i, call_context = [], returned = strip r\<rparr>"
  by (simp add: erase_def)

lemma envelope_context_after:
  "strip (envelope a (r\<lparr>context_after := d\<rparr>)) = strip (envelope a r)"
  "success (envelope a (r\<lparr>context_after := d\<rparr>)) = success (envelope a r)"
  "data (envelope a (r\<lparr>context_after := d\<rparr>)) = data (envelope a r)"
  by (simp_all add: strip_def envelope_def failed_def Let_def split: outcome.splits exn.splits)

lemma blind_core:
  assumes "context_blind a"
  shows "strip (envelope a (core a i d w)) = strip (envelope a (core a i [] w))"
    and "success (envelope a (core a i d w)) = success (envelope a (core a i [] w))"
    and "data (envelope a (core a i d w)) = data (envelope a (core a i [] w))"
    and "world_after (core a i d w) = world_after (core a i [] w)"
    and "context_after (core a i d w) = d"
proof -
  have e: "core a i d w = (core a i [] w)\<lparr>context_after := d\<rparr>"
    using assms unfolding context_blind_def by blast
  show "strip (envelope a (core a i d w)) = strip (envelope a (core a i [] w))"
    using arg_cong [OF e, of "\<lambda>x. strip (envelope a x)"] by (simp only: envelope_context_after)
  show "success (envelope a (core a i d w)) = success (envelope a (core a i [] w))"
    using arg_cong [OF e, of "\<lambda>x. success (envelope a x)"] by (simp only: envelope_context_after)
  show "data (envelope a (core a i d w)) = data (envelope a (core a i [] w))"
    using arg_cong [OF e, of "\<lambda>x. data (envelope a x)"] by (simp only: envelope_context_after)
  show "world_after (core a i d w) = world_after (core a i [] w)"
    using arg_cong [OF e, of world_after] by simp
  show "context_after (core a i d w) = d"
    using arg_cong [OF e, of context_after] by simp
qed

lemma sequential_trace_pipeline:
  "\<forall>a \<in> set agents. context_blind a \<Longrightarrow>
   sequential_trace agents shared results current_input w = (cs, w') \<Longrightarrow>
   pipeline agents current_input w = (map erase cs, w')"
proof (induction agents arbitrary: results current_input w cs w')
  case Nil
  then show ?case by simp
next
  case (Cons a rest)
  have b: "context_blind a" using Cons.prems(1) by simp
  note bc = blind_core [OF b, of current_input "context_for shared results" w]
  show ?case
  proof (cases "success (envelope a (core a current_input [] w))")
    case False
    then show ?thesis using Cons.prems(2) bc
      by (auto simp: Let_def erase_call)
  next
    case True
    obtain cs2 w2 where t: "sequential_trace rest shared
        (results @ [envelope a (core a current_input (context_for shared results) w)])
        (data (envelope a (core a current_input [] w))) (world_after (core a current_input [] w)) = (cs2, w2)"
      by (cases "sequential_trace rest shared
        (results @ [envelope a (core a current_input (context_for shared results) w)])
        (data (envelope a (core a current_input [] w))) (world_after (core a current_input [] w))")
    have ih: "pipeline rest (data (envelope a (core a current_input [] w)))
                (world_after (core a current_input [] w)) = (map erase cs2, w2)"
      using Cons.IH [OF _ t] Cons.prems(1) by simp
    show ?thesis using Cons.prems(2) True bc t ih
      by (auto simp: Let_def erase_call)
  qed
qed

lemma linked_next_agent: "next_agent st' = next_agent st \<Longrightarrow> linked st' as = linked st as"
  by (induction st as rule: linked.induct) auto

lemma execute_blind_passed:
  "context_blind a \<Longrightarrow> passed context (snd (execute a i context st)) = passed context st"
  by (auto simp: execute_def Let_def or_empty_def new_dict_def passed_def blind_core(5)
      split: prod.splits option.splits)

lemma chain_loop_pipeline:
  "linked st (a # rest) \<Longrightarrow> \<forall>x \<in> set (a # rest). context_blind x \<Longrightarrow>
   pipeline (a # rest) current_input (world st) = (ps, w') \<Longrightarrow>
   \<exists>cs st'. chain_loop a current_input context results st = Some (results @ map returned cs, st')
      \<and> calls st' = calls st @ cs \<and> map erase cs = ps \<and> world st' = w'
      \<and> (\<forall>c \<in> set cs. call_context c = passed context st)
      \<and> passed context st' = passed context st"
proof (induction rest arbitrary: a current_input results st ps w')
  case Nil
  define r where "r = fst (execute a current_input context st)"
  define st1 where "st1 = snd (execute a current_input context st)"
  have b: "context_blind a" using Nil.prems(2) by simp
  note bc = blind_core [OF b, of current_input "passed context st" "world st"]
  have ex: "execute a current_input context st = (r, st1)" by (simp add: r_def st1_def)
  have na: "next_agent st1 (ref a) = None"
    using Nil.prems(1) by (simp add: st1_def execute_next_agent)
  have cl: "chain_loop a current_input context results st = Some (results @ [r], st1)"
    by (subst chain_loop.simps) (simp add: ex na Let_def)
  have c1: "calls st1 = calls st @ [\<lparr>callee = ref a, call_input = current_input,
                  call_context = passed context st, returned = r\<rparr>]"
    by (simp add: st1_def r_def execute_calls)
  have re: "r = envelope a (core a current_input (passed context st) (world st))"
    by (simp add: r_def execute_fst)
  have w1: "world st1 = world_after (core a current_input [] (world st))"
    by (simp add: st1_def execute_world bc)
  have p1: "passed context st1 = passed context st"
    by (simp add: st1_def execute_blind_passed [OF b])
  have ps: "ps = [\<lparr>callee = ref a, call_input = current_input, call_context = [],
               returned = strip (envelope a (core a current_input [] (world st)))\<rparr>]"
       "w' = world_after (core a current_input [] (world st))"
    using Nil.prems(3) by (auto simp: Let_def split: if_splits)
  show ?case
    by (rule exI [where x = "[\<lparr>callee = ref a, call_input = current_input,
                  call_context = passed context st, returned = r\<rparr>]"], rule exI [where x = st1])
       (simp add: cl c1 ps w1 p1 erase_call re bc)
next
  case (Cons b rest)
  define r where "r = fst (execute a current_input context st)"
  define st1 where "st1 = snd (execute a current_input context st)"
  have ba: "context_blind a" using Cons.prems(2) by simp
  note bc = blind_core [OF ba, of current_input "passed context st" "world st"]
  have ex: "execute a current_input context st = (r, st1)" by (simp add: r_def st1_def)
  have na: "next_agent st1 (ref a) = Some b"
    using Cons.prems(1) by (simp add: st1_def execute_next_agent)
  have c1: "calls st1 = calls st @ [\<lparr>callee = ref a, call_input = current_input,
                  call_context = passed context st, returned = r\<rparr>]"
    by (simp add: st1_def r_def execute_calls)
  have re: "r = envelope a (core a current_input (passed context st) (world st))"
    by (simp add: r_def execute_fst)
  have w1: "world st1 = world_after (core a current_input [] (world st))"
    by (simp add: st1_def execute_world bc)
  have p1: "passed context st1 = passed context st"
    by (simp add: st1_def execute_blind_passed [OF ba])
  have sr: "success r = success (envelope a (core a current_input [] (world st)))"
       "data r = data (envelope a (core a current_input [] (world st)))"
       "strip r = strip (envelope a (core a current_input [] (world st)))"
    by (simp_all add: re bc)
  show ?case
  proof (cases "success r")
    case False
    have cl: "chain_loop a current_input context results st = Some (results @ [r], st1)"
      by (subst chain_loop.simps) (simp add: ex False Let_def)
    have ps: "ps = [\<lparr>callee = ref a, call_input = current_input, call_context = [],
               returned = strip r\<rparr>]"
       "w' = world_after (core a current_input [] (world st))"
      using Cons.prems(3) False sr by (auto simp: Let_def split: if_splits)
    show ?thesis
      by (rule exI [where x = "[\<lparr>callee = ref a, call_input = current_input,
                  call_context = passed context st, returned = r\<rparr>]"], rule exI [where x = st1])
         (simp add: cl c1 ps w1 p1 erase_call)
  next
    case True
    have cl: "chain_loop a current_input context results st =
                chain_loop b (data r) context (results @ [r]) st1"
      by (subst chain_loop.simps) (simp add: ex True na Let_def)
    have l1: "linked st1 (b # rest)"
      using Cons.prems(1) linked_next_agent [of st1 st "b # rest"]
      by (simp add: st1_def execute_next_agent)
    obtain ps2 w2 where pp: "pipeline (b # rest) (data r) (world st1) = (ps2, w2)"
      by (cases "pipeline (b # rest) (data r) (world st1)")
    have bl: "\<forall>x \<in> set (b # rest). context_blind x" using Cons.prems(2) by simp
    from Cons.IH [OF l1 bl pp, of "results @ [r]"] obtain cs2 st' where
      ih: "chain_loop b (data r) context (results @ [r]) st1 = Some ((results @ [r]) @ map returned cs2, st')"
          "calls st' = calls st1 @ cs2" "map erase cs2 = ps2" "world st' = w2"
          "\<forall>c \<in> set cs2. call_context c = passed context st1"
          "passed context st' = passed context st1"
      by blast
    have ps: "ps = \<lparr>callee = ref a, call_input = current_input, call_context = [],
               returned = strip r\<rparr> # ps2" "w' = w2"
      using Cons.prems(3) True sr pp w1 by (auto simp: Let_def split: if_splits prod.splits)
    show ?thesis
      by (rule exI [where x = "\<lparr>callee = ref a, call_input = current_input,
                  call_context = passed context st, returned = r\<rparr> # cs2"], rule exI [where x = st'])
         (simp add: cl ih c1 ps p1 erase_call)
  qed
qed

lemma post_then_do:
  "post m P Q \<Longrightarrow> (\<And>x. post (f x) Q R) \<Longrightarrow> post (then_do m f) P R"
  unfolding post_def then_do_def
  by (auto split: prod.splits sum.splits) blast

lemma tracked_update:
  "research_storage research_id = Some e \<Longrightarrow>
   tracked (update_research_status research_id s p m now research_storage) research_id = Some (s, p)"
  by (simp add: tracked_def update_known_entry status_line_def)

lemma post_set_status:
  "post (set_status utcnow research_id s p m) (at_history research_id H)
        (at_history research_id (H @ [Some (s, p)]))"
proof -
  have "at_history research_id (H @ [Some (s, p)]) ds'"
    if a: "at_history research_id H ds" and b: "set_status utcnow research_id s p m ds = (Inr v, ds')"
    for ds ds' :: "('a, 'b) driver" and v
  proof -
    obtain st S Hs where ds: "ds = (st, S, Hs)" by (cases ds)
    from a obtain e where e: "S research_id = Some e" by (auto simp: ds stor_def at_history_def)
    show ?thesis using a b tracked_update [of S research_id e] update_known_entry [of S research_id e] e
      by (auto simp: ds set_status_def stor_def hist_def Let_def at_history_def)
  qed
  then show ?thesis unfolding post_def by blast
qed

lemma post_run_agent: "post (run_agent a i) (at_history research_id H) (at_history research_id H)"
  unfolding post_def
  by (auto simp: run_agent_def stor_def hist_def at_history_def split: prod.splits)

lemma post_unless: "post (unless ok msg) P P"
  unfolding post_def by (auto simp: unless_def split: if_splits)

lemma post_lift: "post (lift x) P P"
  unfolding post_def by (simp add: lift_def)

lemma post_finish: "post (finish v) P P"
  unfolding post_def by (simp add: finish_def)

lemma post_validation_phase:
  "post (validation_phase utcnow agents research_id request final_report sources)
        (at_history research_id H)
        (at_history research_id
           (H @ (if enable_validation request then [Some (''validating'', 95)] else [])))"
proof (cases "enable_validation request")
  case False
  then show ?thesis by (simp add: validation_phase_def post_finish)
next
  case True
  have "post (\<lambda>ds. (if success r
           then then_do (lift (py_get (data r) ''report'' final_report)) (\<lambda>report.
                finish (report, data r))
           else finish (final_report, PDict [])) ds) P P" for r :: "'b AgentResult"
        and P :: "('a, 'b) driver \<Rightarrow> bool"
    by (cases "success r") (auto intro: post_then_do post_lift post_finish)
  then show ?thesis using True
    by (auto simp: validation_phase_def intro!: post_then_do post_set_status post_run_agent)
qed

lemma post_research_workflow:
  "post (research_workflow utcnow agents research_id request)
        (at_history research_id H)
        (at_history research_id
           (((((((H @ [Some (''analyzing'', 10)]) @ [Some (''searching'', 25)])
                 @ [Some (''extracting'', 40)]) @ [Some (''analyzing'', 60)])
                 @ [Some (''formatting'', 80)])
                 @ (if enable_validation request then [Some (''validating'', 95)] else []))
                 @ [Some (''completed'', 100)]))"
  unfolding research_workflow_def
  apply (rule post_then_do,
         rule post_set_status post_run_agent post_unless post_lift post_validation_phase)+
  apply (rule post_finish)
  done

lemma research_workflow_history:
  assumes "research_workflow utcnow agents research_id request ds = (Inr v, ds')"
    and "research_id \<in> dom (stor ds)"
  shows "hist ds' = hist ds @ map Some
           ([(''analyzing'', 10), (''searching'', 25), (''extracting'', 40), (''analyzing'', 60),
             (''formatting'', 80)]
            @ (if enable_validation request then [(''validating'', 95)] else [])
            @ [(''completed'', 100)])"
proof -
  have "at_history research_id (hist ds) ds" using assms(2) by (simp add: at_history_def)
  with post_research_workflow [of utcnow agents research_id request "hist ds"] assms(1)
  show ?thesis unfolding post_def at_history_def by fastforce
qed

lemma parallel_run:
  assumes "allocated context st" and "distinct schedule"
    and "set schedule = {..<length agents}"
  shows "\<exists>results st'.
           execute_parallel agents input_data context schedule st = (Some results, st')
         \<and> length results = length agents
         \<and> (\<forall>i < length agents. agent_name (results ! i) = name (agents ! i)
               \<and> map_of (metadata (results ! i)) ''agent_id'' = Some (PStr (agent_id (agents ! i))))
         \<and> new_calls st st' =
              map (\<lambda>k. \<lparr>callee = ref (agents ! k), call_input = input_data,
                         call_context = passed context st, returned = results ! k\<rparr>) schedule
         \<and> passed context st' = passed context st"
proof -
  obtain sc st1 where oe: "or_empty context st = (sc, st1)" by (cases "or_empty context st")
  note f1 = or_empty_facts [OF assms(1) oe]
  obtain tasks st2 where mt: "make_tasks agents sc st1 = (tasks, st2)"
    by (cases "make_tasks agents sc st1")
  note f2 = make_tasks_facts [OF f1(1) mt]
  have lt: "length tasks = length agents" using f2 by (metis length_map)
  have fst_nth: "\<And>k. k < length agents \<Longrightarrow> fst (tasks ! k) = agents ! k"
    using f2 lt by (metis nth_map)
  obtain slots' st3 where g: "gather tasks input_data schedule (replicate (length tasks) None) st2 = (slots', st3)"
    by (cases "gather tasks input_data schedule (replicate (length tasks) None) st2")
  have p1: "\<forall>k \<in> set schedule. k < length tasks" using assms(3) lt by simp
  have p2: "\<forall>k \<in> set schedule. snd (tasks ! k) < next_addr st2
                \<and> dicts st2 (snd (tasks ! k)) = passed context st"
  proof
    fix k assume "k \<in> set schedule"
    then have "k < length tasks" using p1 by simp
    then have "snd (tasks ! k) \<in> set (map snd tasks)" by simp
    moreover have "\<forall>a \<in> set (map snd tasks). a < next_addr st2 \<and> dicts st2 a = dicts st1 sc"
      using f2 by blast
    ultimately show "snd (tasks ! k) < next_addr st2 \<and> dicts st2 (snd (tasks ! k)) = passed context st"
      using f1(2) by metis
  qed
  have p3: "distinct (map snd tasks)" using f2 by simp
  have p4: "length (replicate (length tasks) (None :: 'b AgentResult option)) = length tasks" by simp
  note gc = gather_calls [OF assms(2) p1 p3 p2 p4 g]
  have ls: "length slots' = length agents" using gc lt by simp
  have all_some: "\<forall>x \<in> set slots'. x \<noteq> None"
  proof
    fix x assume "x \<in> set slots'"
    then obtain k where k: "k < length slots'" "slots' ! k = x" by (auto simp: in_set_conv_nth)
    then have "k \<in> set schedule" using assms(3) ls by simp
    then show "x \<noteq> None" using gc k(2) by auto
  qed
  define results where "results = map the slots'"
  have th: "those slots' = Some results" using those_all_Some [OF all_some] by (simp add: results_def)
  have ep: "execute_parallel agents input_data context schedule st = (Some results, st3)"
    by (simp add: execute_parallel_def oe mt g th)
  have lr: "length results = length agents" by (simp add: results_def ls)
  have nth_r: "\<And>k. k < length agents \<Longrightarrow> the (slots' ! k) = results ! k"
    by (simp add: results_def ls)
  have names: "\<forall>i < length agents. agent_name (results ! i) = name (agents ! i)
               \<and> map_of (metadata (results ! i)) ''agent_id'' = Some (PStr (agent_id (agents ! i)))"
  proof (intro allI impI)
    fix i assume i: "i < length agents"
    then have "i \<in> set schedule" using assms(3) by simp
    then obtain r where "slots' ! i = Some r" "agent_name r = name (fst (tasks ! i))"
        "map_of (metadata r) ''agent_id'' = Some (PStr (agent_id (fst (tasks ! i))))"
      using gc by blast
    then show "agent_name (results ! i) = name (agents ! i)
               \<and> map_of (metadata (results ! i)) ''agent_id'' = Some (PStr (agent_id (agents ! i)))"
      using nth_r [OF i] fst_nth [OF i] by simp
  qed
  have c3: "calls st3 = calls st @
        map (\<lambda>k. \<lparr>callee = ref (agents ! k), call_input = input_data,
                   call_context = passed context st, returned = results ! k\<rparr>) schedule"
  proof -
    have "map (\<lambda>k. \<lparr>callee = ref (fst (tasks ! k)), call_input = input_data,
                   call_context = passed context st, returned = the (slots' ! k)\<rparr>) schedule
        = map (\<lambda>k. \<lparr>callee = ref (agents ! k), call_input = input_data,
                   call_context = passed context st, returned = results ! k\<rparr>) schedule"
      using assms(3) nth_r fst_nth by (intro map_cong) auto
    then show ?thesis using gc f2 f1(3) by simp
  qed
  have keep: "passed context st3 = passed context st"
  proof (cases "context")
    case None then show ?thesis by (simp add: passed_def)
  next
    case (Some a)
    then have a: "a < next_addr st" using assms(1) by (simp add: allocated_def)
    have a1: "a < next_addr st1" using a f1(6) by simp
    have a2: "a < next_addr st2" using a1 f2 by simp
    have "a \<notin> set (map snd tasks)" using f2 a1 by fastforce
    then have "dicts st3 a = dicts st2 a" using gc a2 by simp
    also have "\<dots> = dicts st1 a" using f2 a1 by simp
    also have "\<dots> = dicts st a" using f1(7) a by simp
    finally show ?thesis by (simp add: passed_def Some)
  qed
  show ?thesis using ep lr names c3 keep by (simp add: new_calls_def)
qed

section \<open>Evaluation of the examples\<close>

lemmas agent_unfold = execute_def or_empty_def new_dict_def get_metadata_def failed_def keys_def
  timeout_message_def str_int_def str_nat.simps Let_def

lemmas example_unfold = double_def fail_def triple_def slow_def noter_def worker_a_def
  worker_b_def collect_def state0_def chained0_def

lemmas driver_unfold = execute_research_def research_workflow_def validation_phase_def
  then_do_def set_status_def run_agent_def unless_def lift_def finish_def succeeded_def hist_def
  update_research_status_def tracked_def status_line_def storage0_def initial_entry_def
  agents0_def fixed_agent_def request0_def clock0_def agents_used_def slice_to_def

section \<open>The stage tracker\<close>

text \<open>
  C8. On a known id, \<open>update_research_status\<close> stores the given status, progress and
  message and the current time as \<open>updated_at\<close>; every other key of that entry (among them
  \<open>id\<close>, \<open>query\<close>, \<open>created_at\<close> and \<open>user_id\<close>) and every other entry keep their
  values. On an unknown id the whole storage is returned as it was, and the function has
  no error result.
\<close>

theorem update_research_status_contract:
  "(research_storage research_id = Some e \<longrightarrow>
      (\<exists>e'. update_research_status research_id s p m now research_storage research_id = Some e'
          \<and> e' ''status'' = Some (Val (PStr s))
          \<and> e' ''progress'' = Some (Val (PInt p))
          \<and> e' ''message'' = Some (Val (PStr m))
          \<and> e' ''updated_at'' = Some (Time now)
          \<and> (\<forall>k. k \<notin> {''status'', ''progress'', ''message'', ''updated_at''} \<longrightarrow> e' k = e k))
      \<and> (\<forall>r. r \<noteq> research_id \<longrightarrow>
            update_research_status research_id s p m now research_storage r = research_storage r))
   \<and> (research_storage research_id = None \<longrightarrow>
        update_research_status research_id s p m now research_storage = research_storage)"
  by (simp add: update_unknown update_known_entry update_other_entry)

theorem update_research_status_contract_witness:
  "update_research_status ''r1'' ''searching'' 25 ''Searching for information...'' 7
       [''r1'' \<mapsto> initial_entry ''r1'' ''what is new in rust'' (PStr ''anonymous'') 3 3] ''r1''
     = Some ((initial_entry ''r1'' ''what is new in rust'' (PStr ''anonymous'') 3 3)
          (''status'' \<mapsto> Val (PStr ''searching''), ''progress'' \<mapsto> Val (PInt 25),
           ''message'' \<mapsto> Val (PStr ''Searching for information...''),
           ''updated_at'' \<mapsto> Time 7))
   \<and> update_research_status ''r2'' ''searching'' 25 ''Searching for information...'' 7
       [''r1'' \<mapsto> initial_entry ''r1'' ''what is new in rust'' (PStr ''anonymous'') 3 3]
     = [''r1'' \<mapsto> initial_entry ''r1'' ''what is new in rust'' (PStr ''anonymous'') 3 3]"
  using update_research_status_contract
    [of "[''r1'' \<mapsto> initial_entry ''r1'' ''what is new in rust'' (PStr ''anonymous'') 3 3]"
        "''r1''" "initial_entry ''r1'' ''what is new in rust'' (PStr ''anonymous'') 3 3"
        "''searching''" 25 "''Searching for information...''" 7]
    update_research_status_contract
    [of "[''r1'' \<mapsto> initial_entry ''r1'' ''what is new in rust'' (PStr ''anonymous'') 3 3]"
        "''r2''" "Map.empty" "''searching''" 25 "''Searching for information...''" 7]
  by (simp add: update_research_status_def)

text \<open>
  C9. The claim is that \<open>get_research_status\<close> on an unknown id reports a not-found
  condition. The function does reach \<open>raise ResourceNotFoundError(...)\<close>, but
  \<open>research.py\<close> never imports that class, so what the caller receives is a
  \<open>NameError\<close>: here on a storage that holds only the id \<open>r1\<close>, asked for
  \<open>test-research-id\<close>.
\<close>

theorem get_research_status_unknown_id:
  "get_research_status
     [''r1'' \<mapsto> initial_entry ''r1'' ''what is new in rust'' (PStr ''anonymous'') 3 3]
     ''test-research-id''
   = Inl (NameError ''ResourceNotFoundError'')"
  by (rule get_unknown) simp

section \<open>The execution wrapper\<close>

text \<open>
  C1. Whatever the core computation does (it returns a value before the deadline, it
  raises, or the deadline passes first), \<open>execute\<close> returns an envelope: the function has
  no exceptional result. The envelope has \<open>success\<close> true exactly when the computation
  returned a value; then \<open>data\<close> is that value and \<open>error\<close> is \<open>None\<close>. Otherwise \<open>data\<close>
  is \<open>None\<close> and \<open>error\<close> is a message: the raised exception's own, or the timeout message
  when the deadline passed.
\<close>

theorem execute_envelope:
  "let r = core self input_data (passed context st) (world st);
       res = fst (execute self input_data context st)
   in (success res \<longleftrightarrow> (\<exists>v. outcome r = Returned v))
      \<and> (\<forall>v. outcome r = Returned v \<longrightarrow> data res = v \<and> error res = None)
      \<and> (\<not> success res \<longrightarrow> data res = PNone \<and> error res \<noteq> None)
      \<and> (\<forall>msg. outcome r = Raised (Exception msg) \<longrightarrow> error res = Some msg)
      \<and> (outcome r = DeadlineExceeded \<or> outcome r = Raised AsyncTimeoutError
            \<longrightarrow> error res = Some (timeout_message self))"
  by (simp add: Let_def execute_fst envelope_def failed_def split: outcome.splits exn.splits)

text \<open>
  The three kinds of computation on concrete agents: one that doubles 5, one that raises
  \<open>boom\<close>, and one that runs into its deadline of one second.
\<close>

theorem execute_envelope_witness:
  "fst (execute double (PInt 5) None state0) =
     \<lparr>agent_name = ''double'', success = True, data = PInt 10, error = None, duration_ms = 50,
      metadata = [(''agent_id'', PStr ''double_1a2b3c4d''), (''context_keys'', PList [])]\<rparr>
   \<and> fst (execute fail (PInt 5) None state0) =
     \<lparr>agent_name = ''fail'', success = False, data = PNone, error = Some ''boom'', duration_ms = 10,
      metadata = [(''agent_id'', PStr ''fail_5e6f7a8b''), (''context_keys'', PList [])]\<rparr>
   \<and> fst (execute slow (PInt 5) None state0) =
     \<lparr>agent_name = ''slow'', success = False, data = PNone,
      error = Some ''Agent execution timed out after 1s'', duration_ms = 1000,
      metadata = [(''agent_id'', PStr ''slow_0a1b2c3d''), (''context_keys'', PList [])]\<rparr>"
  using execute_envelope [of double "PInt 5" None state0]
        execute_envelope [of fail "PInt 5" None state0]
        execute_envelope [of slow "PInt 5" None state0]
  by (simp add: agent_unfold example_unfold)

lemma execute_context_after:
  "dicts (snd (execute self input_data context st))
         (context_of (snd (execute self input_data context st)) (ref self)) =
     context_after (core self input_data (passed context st) (world st))"
  by (auto simp: execute_def Let_def passed_def or_empty_def new_dict_def
       split: prod.splits option.splits)

lemma envelope_context_keys:
  "map_of (metadata (envelope a r)) ''context_keys'' = Some (PList (map PStr (keys (context_after r))))"
  by (simp add: envelope_def failed_def Let_def split: outcome.splits exn.splits)

lemma set_context_passed:
  "context \<noteq> Some (context_of st (ref self)) \<Longrightarrow>
   passed context (set_context self key v st) = passed context st"
  by (auto simp: passed_def set_context_def split: option.splits)

lemma set_context_world: "world (set_context self key v st) = world st"
  by (simp add: set_context_def)

text \<open>
  C10 (amended). Every call of \<open>execute\<close> makes the passed mapping (or a new empty one)
  the agent's context: the computation starts from exactly the contents of the passed
  mapping, and a pair stored earlier with \<open>set_context\<close> in the agent's previous context
  object changes nothing in the envelope. \<open>context_keys\<close> lists the keys of the agent's
  context when the computation has ended; these are the keys of the passed mapping whenever
  the computation itself does not write the context.
\<close>

theorem execute_replaces_context:
  "let r = core self input_data (passed context st) (world st);
       res = fst (execute self input_data context st);
       st' = snd (execute self input_data context st)
   in call_context (last (calls st')) = passed context st
      \<and> dicts st' (context_of st' (ref self)) = context_after r
      \<and> map_of (metadata res) ''context_keys'' = Some (PList (map PStr (keys (context_after r))))
      \<and> (context_after r = passed context st \<longrightarrow>
            map_of (metadata res) ''context_keys'' = Some (PList (map PStr (keys (passed context st)))))
      \<and> (context \<noteq> Some (context_of st (ref self)) \<longrightarrow>
            fst (execute self input_data context (set_context self key v st)) = res)"
  by (simp add: Let_def execute_calls execute_context_after execute_fst envelope_context_keys
        set_context_passed set_context_world)

text \<open>
  An agent that leaves its context alone, called with the caller's context after a value
  was stored in its old context with \<open>set_context\<close>.
\<close>

theorem execute_replaces_context_witness:
  "context_after (core double (PInt 5) (passed (Some 0) state0) (world state0))
      = passed (Some 0) state0
   \<and> Some 0 \<noteq> Some (context_of state0 (ref double))
   \<and> map_of (metadata (fst (execute double (PInt 5) (Some 0) state0))) ''context_keys''
      = Some (PList [PStr ''topic''])
   \<and> fst (execute double (PInt 5) (Some 0) (set_context double ''old'' (PInt 1) state0))
      = fst (execute double (PInt 5) (Some 0) state0)"
  using execute_replaces_context [of double "PInt 5" "Some 0" state0 "''old''" "PInt 1"]
  by (simp add: passed_def agent_unfold example_unfold)

text \<open>
  Without the last proviso the sentence fails: \<open>noter\<close> stores the key \<open>seen\<close> while it
  runs, no context is passed, and the envelope lists \<open>seen\<close>, which is not a key of the
  (empty) passed mapping.
\<close>

theorem context_keys_after_write:
  "map_of (metadata (fst (execute noter (PInt 5) None state0))) ''context_keys''
     = Some (PList [PStr ''seen''])
   \<and> keys (passed None state0) = []"
  by (simp add: passed_def agent_unfold example_unfold)

section \<open>Sequential orchestration\<close>

text \<open>
  C2. \<open>execute_sequential\<close> calls the agents one at a time in registration order, the
  first on the initial input and each further one on the \<open>data\<close> of the envelope before
  it. The calls made are exactly those of the first \<open>length results\<close> agents and the list
  returned holds their envelopes in that order. Every envelope but the last is a success;
  if fewer envelopes than agents come back, the last one is a failure, so the run stopped
  there and no later agent was called; if all envelopes are successes there is one per
  registered agent.
\<close>

theorem execute_sequential_order:
  assumes "allocated context st"
    and "execute_sequential agents initial_input context st = (results, st')"
  shows "length results \<le> length agents
       \<and> map agent_name results = map name (take (length results) agents)
       \<and> map callee (new_calls st st') = map ref (take (length results) agents)
       \<and> map call_input (new_calls st st') = take (length results) (initial_input # map data results)
       \<and> map returned (new_calls st st') = results
       \<and> (\<forall>k. Suc k < length results \<longrightarrow> success (results ! k))
       \<and> (length results < length agents \<longrightarrow> results \<noteq> [] \<and> \<not> success (last results))
       \<and> ((\<forall>r \<in> set results. success r) \<longrightarrow> length results = length agents)"
proof -
  from execute_sequential_trace [OF assms] obtain cs where
    t: "sequential_trace agents (passed context st) [] initial_input (world st) = (cs, world st')"
    and r: "results = map returned cs" and c: "calls st' = calls st @ cs" by blast
  have nc: "new_calls st st' = cs" by (simp add: new_calls_def c)
  have len: "length results = length cs" by (simp add: r)
  have 1: "length results \<le> length agents" using trace_length [OF t] len by simp
  have 2: "map agent_name results = map name (take (length results) agents)"
    using trace_names [OF t] by (simp add: r comp_def)
  have 3: "map callee (new_calls st st') = map ref (take (length results) agents)"
    using trace_callee [OF t] by (simp add: nc len)
  have 4: "map call_input (new_calls st st') = take (length results) (initial_input # map data results)"
    using trace_input [OF t] by (simp add: nc r comp_def)
  have 5: "map returned (new_calls st st') = results" by (simp add: nc r)
  have 6: "\<forall>k. Suc k < length results \<longrightarrow> success (results ! k)"
    using trace_success [OF t] by (simp add: r)
  have 7: "length results < length agents \<longrightarrow> results \<noteq> [] \<and> \<not> success (last results)"
    using trace_stop [OF t] by (auto simp: r last_map)
  have 8: "(\<forall>r \<in> set results. success r) \<longrightarrow> length results = length agents"
    using 1 7 by (metis last_in_set le_neq_implies_less)
  from 1 2 3 4 5 6 7 8 show ?thesis by blast
qed

text \<open>
  Three agents of which the second fails: two envelopes, two calls, the second on the
  output of the first. Two agents that succeed: two envelopes.
\<close>

theorem execute_sequential_order_witness:
  "allocated (Some 0) state0
   \<and> map agent_name (fst (execute_sequential [double, fail, triple] (PInt 5) (Some 0) state0))
       = [''double'', ''fail'']
   \<and> map success (fst (execute_sequential [double, fail, triple] (PInt 5) (Some 0) state0))
       = [True, False]
   \<and> map callee (new_calls state0
         (snd (execute_sequential [double, fail, triple] (PInt 5) (Some 0) state0))) = [1, 2]
   \<and> map call_input (new_calls state0
         (snd (execute_sequential [double, fail, triple] (PInt 5) (Some 0) state0)))
       = [PInt 5, PInt 10]
   \<and> map success (fst (execute_sequential [double, triple] (PInt 5) (Some 0) state0))
       = [True, True]"
  using execute_sequential_order [of "Some 0" state0 "[double, fail, triple]" "PInt 5"
          "fst (execute_sequential [double, fail, triple] (PInt 5) (Some 0) state0)"
          "snd (execute_sequential [double, fail, triple] (PInt 5) (Some 0) state0)"]
        execute_sequential_order [of "Some 0" state0 "[double, triple]" "PInt 5"
          "fst (execute_sequential [double, triple] (PInt 5) (Some 0) state0)"
          "snd (execute_sequential [double, triple] (PInt 5) (Some 0) state0)"]
  by (simp add: allocated_def new_calls_def execute_sequential_def agent_unfold example_unfold)

text \<open>
  C3 (amended). In \<open>execute_sequential\<close> every call but the first receives a copy of the
  shared context in which \<open>previous_results\<close> is the list of the \<open>data\<close> of all earlier
  successful envelopes of the run. The first call receives a copy of the shared context as
  it is.
\<close>

theorem execute_sequential_previous_results:
  assumes "allocated context st"
    and "execute_sequential agents initial_input context st = (results, st')"
    and "k < length results"
  shows "call_context (new_calls st st' ! k) =
           (if k = 0 then passed context st
            else dict_set ''previous_results'' (PList (map data (filter success (take k results))))
                   (passed context st))
       \<and> (0 < k \<longrightarrow> map_of (call_context (new_calls st st' ! k)) ''previous_results''
                     = Some (PList (map data (filter success (take k results)))))"
proof -
  from execute_sequential_trace [OF assms(1,2)] obtain cs where
    t: "sequential_trace agents (passed context st) [] initial_input (world st) = (cs, world st')"
    and r: "results = map returned cs" and c: "calls st' = calls st @ cs" by blast
  have nc: "new_calls st st' = cs" by (simp add: new_calls_def c)
  have k: "k < length cs" using assms(3) r by simp
  have "call_context (cs ! k) = context_for (passed context st) (map returned (take k cs))"
    using trace_context [OF t k] by simp
  then show ?thesis using k
    by (auto simp: nc r context_for_def take_map map_of_dict_set)
qed

text \<open>Two agents on the context \<open>{"topic": "rust"}\<close>: the contexts of both calls.\<close>

theorem execute_sequential_previous_results_witness:
  "allocated (Some 0) state0
   \<and> (1::nat) < length (fst (execute_sequential [double, triple] (PInt 5) (Some 0) state0))
   \<and> call_context (new_calls state0
         (snd (execute_sequential [double, triple] (PInt 5) (Some 0) state0)) ! 1)
       = [(''topic'', PStr ''rust''), (''previous_results'', PList [PInt 10])]
   \<and> call_context (new_calls state0
         (snd (execute_sequential [double, triple] (PInt 5) (Some 0) state0)) ! 0)
       = [(''topic'', PStr ''rust'')]"
  using execute_sequential_previous_results [of "Some 0" state0 "[double, triple]" "PInt 5"
          "fst (execute_sequential [double, triple] (PInt 5) (Some 0) state0)"
          "snd (execute_sequential [double, triple] (PInt 5) (Some 0) state0)" 1]
        execute_sequential_previous_results [of "Some 0" state0 "[double, triple]" "PInt 5"
          "fst (execute_sequential [double, triple] (PInt 5) (Some 0) state0)"
          "snd (execute_sequential [double, triple] (PInt 5) (Some 0) state0)" 0]
  by (simp add: allocated_def new_calls_def passed_def execute_sequential_def agent_unfold
        example_unfold)

text \<open>
  For the first call the sentence as it stands fails: with no context passed, the context
  of the first call has no \<open>previous_results\<close> entry at all.
\<close>

theorem first_call_without_previous_results:
  "map_of (call_context (hd (new_calls state0
       (snd (execute_sequential [double, triple] (PInt 5) None state0))))) ''previous_results''
     = None"
  by (simp add: new_calls_def execute_sequential_def agent_unfold example_unfold)

section \<open>Parallel and map-reduce orchestration\<close>

text \<open>
  C4. For every order in which the agents' executions take effect, \<open>execute_parallel\<close>
  returns as many envelopes as there are registered agents, the i-th being the envelope
  returned by the call of the i-th agent. Every call is made on the same input and on a
  context whose contents are those of the shared context, whatever the agents that ran
  earlier wrote into their own contexts; the shared context itself is left as it was.
  Each execution is taken as a whole here; what happens when two computations interleave
  at their suspension points is not part of this model.
\<close>

theorem execute_parallel_aligned:
  assumes "allocated context st" and "distinct schedule"
    and "set schedule = {..<length agents}"
  shows "\<exists>results st'.
           execute_parallel agents input_data context schedule st = (Some results, st')
         \<and> length results = length agents
         \<and> (\<forall>i < length agents. agent_name (results ! i) = name (agents ! i)
               \<and> map_of (metadata (results ! i)) ''agent_id'' = Some (PStr (agent_id (agents ! i))))
         \<and> new_calls st st' =
              map (\<lambda>k. \<lparr>callee = ref (agents ! k), call_input = input_data,
                         call_context = passed context st, returned = results ! k\<rparr>) schedule
         \<and> passed context st' = passed context st"
  using assms by (rule parallel_run)

text \<open>
  Three agents completing in the order third, first, second. The first one writes into its
  context, and the two that run after it still start from the shared context.
\<close>

theorem execute_parallel_aligned_witness:
  "allocated (Some 0) state0 \<and> distinct [2, 0, 1 :: nat]
   \<and> set [2, 0, 1] = {..<length [noter, fail, triple]}
   \<and> map agent_name (the (fst (execute_parallel [noter, fail, triple] (PInt 5) (Some 0) [2, 0, 1] state0)))
       = [''noter'', ''fail'', ''triple'']
   \<and> map callee (new_calls state0
         (snd (execute_parallel [noter, fail, triple] (PInt 5) (Some 0) [2, 0, 1] state0)))
       = [3, 5, 2]
   \<and> map call_context (new_calls state0
         (snd (execute_parallel [noter, fail, triple] (PInt 5) (Some 0) [2, 0, 1] state0)))
       = [[(''topic'', PStr ''rust'')], [(''topic'', PStr ''rust'')], [(''topic'', PStr ''rust'')]]
   \<and> passed (Some 0)
         (snd (execute_parallel [noter, fail, triple] (PInt 5) (Some 0) [2, 0, 1] state0))
       = [(''topic'', PStr ''rust'')]"
proof -
  have h1: "allocated (Some 0) state0" by (simp add: allocated_def state0_def)
  have h2: "distinct [2, 0, 1 :: nat]" by simp
  have h3: "set [2, 0, 1] = {..<length [noter, fail, triple]}" by auto
  have run: "map agent_name (the (fst (execute_parallel [noter, fail, triple] (PInt 5) (Some 0) [2, 0, 1] state0)))
       = [''noter'', ''fail'', ''triple'']
   \<and> map callee (new_calls state0
         (snd (execute_parallel [noter, fail, triple] (PInt 5) (Some 0) [2, 0, 1] state0)))
       = [3, 5, 2]
   \<and> map call_context (new_calls state0
         (snd (execute_parallel [noter, fail, triple] (PInt 5) (Some 0) [2, 0, 1] state0)))
       = [[(''topic'', PStr ''rust'')], [(''topic'', PStr ''rust'')], [(''topic'', PStr ''rust'')]]
   \<and> passed (Some 0)
         (snd (execute_parallel [noter, fail, triple] (PInt 5) (Some 0) [2, 0, 1] state0))
       = [(''topic'', PStr ''rust'')]"
    by (simp add: new_calls_def passed_def execute_parallel_def agent_unfold example_unfold)
  from execute_parallel_aligned [OF h1 h2 h3, of "PInt 5"] h1 h2 h3 run
  show ?thesis by blast
qed

text \<open>
  C5 (amended). After the map phase, if no map envelope is a success, \<open>execute_map_reduce\<close>
  returns the failed envelope named \<open>map_reduce\<close> with the error \<open>All map agents failed\<close>,
  the sum of all map durations and the names of the (failed) agents, in the state the map
  phase ended in: the only calls made are those of the map agents. Otherwise it calls the
  reducer once, through \<open>execute\<close>, and returns what that call returns. The reducer's
  input holds the data of the successful envelopes in order and a mapping keyed by agent
  name; under each name borne by a successful agent stands the metadata of the last such
  agent in registration order, which is the agent's own metadata when no successful agent
  shares its name.
\<close>

theorem execute_map_reduce_cases:
  assumes "allocated context st" and "distinct schedule"
    and "set schedule = {..<length agents}"
  shows "\<exists>map_results st1.
           execute_parallel agents input_data context schedule st = (Some map_results, st1)
         \<and> length map_results = length agents
         \<and> map callee (new_calls st st1) = map (\<lambda>k. ref (agents ! k)) schedule
         \<and> ((\<forall>r \<in> set map_results. \<not> success r) \<longrightarrow>
               execute_map_reduce agents input_data reducer context schedule st =
                 (Some \<lparr>agent_name = ''map_reduce'', success = False, data = PNone,
                         error = Some ''All map agents failed'',
                         duration_ms = pysum (map duration_ms map_results),
                         metadata = [(''failed_agents'',
                            PList (map (\<lambda>r. PStr (agent_name r)) map_results))]\<rparr>, st1))
         \<and> ((\<exists>r \<in> set map_results. success r) \<longrightarrow>
               execute_map_reduce agents input_data reducer context schedule st =
                 (Some (fst (execute reducer (reduce_input map_results) context st1)),
                  snd (execute reducer (reduce_input map_results) context st1))
               \<and> new_calls st1 (snd (execute reducer (reduce_input map_results) context st1)) =
                   [\<lparr>callee = ref reducer, call_input = reduce_input map_results,
                     call_context = passed context st1,
                     returned = fst (execute reducer (reduce_input map_results) context st1)\<rparr>])
         \<and> (\<exists>md. reduce_input map_results =
                     PDict [(''results'', PList (map data (filter success map_results))),
                            (''metadata'', PDict md)]
                \<and> (\<forall>n. map_of md n =
                      (if n \<in> agent_name ` {r \<in> set map_results. success r}
                       then Some (PDict (metadata (last
                              (filter (\<lambda>r. success r \<and> agent_name r = n) map_results))))
                       else None)))"
proof -
  from parallel_run [OF assms, of input_data] obtain map_results st1 where
    p: "execute_parallel agents input_data context schedule st = (Some map_results, st1)"
    and l: "length map_results = length agents"
    and c: "new_calls st st1 =
              map (\<lambda>k. \<lparr>callee = ref (agents ! k), call_input = input_data,
                         call_context = passed context st, returned = map_results ! k\<rparr>) schedule"
    by blast
  have 1: "map callee (new_calls st st1) = map (\<lambda>k. ref (agents ! k)) schedule"
    by (simp add: c comp_def)
  have 2: "new_calls st1 (snd (execute reducer (reduce_input map_results) context st1)) =
             [\<lparr>callee = ref reducer, call_input = reduce_input map_results,
               call_context = passed context st1,
               returned = fst (execute reducer (reduce_input map_results) context st1)\<rparr>]"
    by (simp add: new_calls_def execute_calls)
  have 3: "\<exists>md. reduce_input map_results =
                     PDict [(''results'', PList (map data (filter success map_results))),
                            (''metadata'', PDict md)]
                \<and> (\<forall>n. map_of md n =
                      (if n \<in> agent_name ` {r \<in> set map_results. success r}
                       then Some (PDict (metadata (last
                              (filter (\<lambda>r. success r \<and> agent_name r = n) map_results))))
                       else None))"
    using name_to_metadata [of map_results] unfolding reduce_input_def by blast
  show ?thesis
    using p l 1 2 3 map_reduce_all_failed [OF p, of reducer]
      map_reduce_some_succeeded [OF p, of reducer]
    by blast
qed

text \<open>
  Two failing map agents: the reducer \<open>collect\<close> (object 8) is not among the calls. One
  failing and one successful map agent: the reducer is called last, on the one result.
\<close>

theorem execute_map_reduce_cases_witness:
  "allocated None state0 \<and> distinct [1, 0 :: nat] \<and> set [1, 0] = {..<length [fail, slow]}
   \<and> fst (execute_map_reduce [fail, slow] (PInt 5) collect None [1, 0] state0) =
       Some \<lparr>agent_name = ''map_reduce'', success = False, data = PNone,
              error = Some ''All map agents failed'', duration_ms = 1010,
              metadata = [(''failed_agents'', PList [PStr ''fail'', PStr ''slow''])]\<rparr>
   \<and> map callee (calls (snd (execute_map_reduce [fail, slow] (PInt 5) collect None [1, 0] state0)))
       = [4, 2]
   \<and> map callee (calls (snd (execute_map_reduce [fail, double] (PInt 5) collect None [1, 0] state0)))
       = [1, 2, 8]
   \<and> map_option data (fst (execute_map_reduce [fail, double] (PInt 5) collect None [1, 0] state0)) =
       Some (PDict [(''results'', PList [PInt 10]),
                    (''metadata'', PDict [(''double'',
                        PDict [(''agent_id'', PStr ''double_1a2b3c4d''),
                               (''context_keys'', PList [])])])])"
proof -
  have h1: "allocated None state0" by (simp add: allocated_def)
  have h2: "distinct [1, 0 :: nat]" by simp
  have h3: "set [1, 0] = {..<length [fail, slow]}" by auto
  have h4: "set [1, 0] = {..<length [fail, double]}" by auto
  have run: "fst (execute_map_reduce [fail, slow] (PInt 5) collect None [1, 0] state0) =
       Some \<lparr>agent_name = ''map_reduce'', success = False, data = PNone,
              error = Some ''All map agents failed'', duration_ms = 1010,
              metadata = [(''failed_agents'', PList [PStr ''fail'', PStr ''slow''])]\<rparr>
   \<and> map callee (calls (snd (execute_map_reduce [fail, slow] (PInt 5) collect None [1, 0] state0)))
       = [4, 2]
   \<and> map callee (calls (snd (execute_map_reduce [fail, double] (PInt 5) collect None [1, 0] state0)))
       = [1, 2, 8]
   \<and> map_option data (fst (execute_map_reduce [fail, double] (PInt 5) collect None [1, 0] state0)) =
       Some (PDict [(''results'', PList [PInt 10]),
                    (''metadata'', PDict [(''double'',
                        PDict [(''agent_id'', PStr ''double_1a2b3c4d''),
                               (''context_keys'', PList [])])])])"
    by (simp add: execute_map_reduce_def execute_parallel_def dict_of_def pysum_def
          agent_unfold example_unfold)
  from execute_map_reduce_cases [OF h1 h2 h3, of "PInt 5" collect]
       execute_map_reduce_cases [OF h1 h2 h4, of "PInt 5" collect] h1 h2 h3 run
  show ?thesis by blast
qed

text \<open>
  With two successful agents of the same name the sentence as it stands fails: the
  reducer's input has a single entry for \<open>worker\<close>, holding the metadata of the second
  agent, and the metadata of the first (instance \<open>worker_00000001\<close>) is not in it.
\<close>

theorem shared_name_loses_metadata:
  "call_input (last (calls (snd
       (execute_map_reduce [worker_a, worker_b] (PInt 5) collect None [0, 1] state0)))) =
     PDict [(''results'', PList [PStr ''a'', PStr ''b'']),
            (''metadata'', PDict
               [(''worker'', PDict [(''agent_id'', PStr ''worker_00000002''),
                                   (''context_keys'', PList [])])])]
   \<and> map_option (map metadata)
         (fst (execute_parallel [worker_a, worker_b] (PInt 5) None [0, 1] state0)) =
       Some [[(''agent_id'', PStr ''worker_00000001''), (''context_keys'', PList [])],
             [(''agent_id'', PStr ''worker_00000002''), (''context_keys'', PList [])]]"
  by (simp add: execute_map_reduce_def execute_parallel_def dict_of_def agent_unfold example_unfold)

section \<open>Chained execution\<close>

lemma erase_fields:
  "map callee (map erase cs) = map callee cs"
  "map call_input (map erase cs) = map call_input cs"
  "map returned (map erase cs) = map strip (map returned cs)"
  by (simp_all add: erase_def comp_def)

text \<open>
  C6 (amended). On a chain of agents linked by \<open>next_agent\<close>, whose computations neither
  depend on the context nor write it, \<open>execute_chain\<close> from the head returns, and it calls
  the same agents on the same inputs and stops at the same point as \<open>execute_sequential\<close>
  over the list of these agents; the two lists of envelopes agree in everything but the
  metadata, and the world is left the same. The contexts differ: \<open>execute_chain\<close> hands
  every agent the caller's context unchanged, where \<open>execute_sequential\<close> adds
  \<open>previous_results\<close> for every agent after the first.
\<close>

theorem execute_chain_matches_sequential:
  assumes "allocated context st" and "linked st agents"
    and "\<forall>a \<in> set agents. context_blind a"
  shows "\<exists>chain_results st_c seq_results st_s.
           execute_chain (hd agents) input_data context st = Some (chain_results, st_c)
         \<and> execute_sequential agents input_data context st = (seq_results, st_s)
         \<and> map strip chain_results = map strip seq_results
         \<and> map callee (new_calls st st_c) = map callee (new_calls st st_s)
         \<and> map call_input (new_calls st st_c) = map call_input (new_calls st st_s)
         \<and> world st_c = world st_s
         \<and> (\<forall>c \<in> set (new_calls st st_c). call_context c = passed context st)"
proof -
  obtain a rest where ag: "agents = a # rest"
    using assms(2) by (cases agents) auto
  obtain seq_results st_s where s: "execute_sequential agents input_data context st = (seq_results, st_s)"
    by (cases "execute_sequential agents input_data context st")
  from execute_sequential_trace [OF assms(1) s] obtain cs where
    t: "sequential_trace agents (passed context st) [] input_data (world st) = (cs, world st_s)"
    and r: "seq_results = map returned cs" and c: "calls st_s = calls st @ cs" by blast
  have p: "pipeline (a # rest) input_data (world st) = (map erase cs, world st_s)"
    using sequential_trace_pipeline [OF assms(3) t] by (simp add: ag)
  have l: "linked st (a # rest)" using assms(2) by (simp add: ag)
  have b: "\<forall>x \<in> set (a # rest). context_blind x" using assms(3) by (simp add: ag)
  from chain_loop_pipeline [OF l b p, of "context" "[]"] obtain cs' st_c where
    ch: "chain_loop a input_data context [] st = Some ([] @ map returned cs', st_c)"
    and c': "calls st_c = calls st @ cs'" and e: "map erase cs' = map erase cs"
    and w: "world st_c = world st_s"
    and k: "\<forall>c \<in> set cs'. call_context c = passed context st"
    by blast
  have nc: "new_calls st st_c = cs'" "new_calls st st_s = cs"
    by (simp_all add: new_calls_def c c')
  have 1: "execute_chain (hd agents) input_data context st = Some (map returned cs', st_c)"
    using ch by (simp add: execute_chain_def ag)
  have 2: "map strip (map returned cs') = map strip seq_results"
    using arg_cong [OF e, of "map returned"] by (simp only: erase_fields r)
  have 3: "map callee cs' = map callee cs"
    using arg_cong [OF e, of "map callee"] by (simp only: erase_fields)
  have 4: "map call_input cs' = map call_input cs"
    using arg_cong [OF e, of "map call_input"] by (simp only: erase_fields)
  show ?thesis using 1 s 2 3 4 w k by (simp add: nc)
qed

text \<open>The chain \<open>double.then(triple)\<close> on the input 5.\<close>

theorem execute_chain_matches_sequential_witness:
  "allocated (Some 0) chained0 \<and> linked chained0 [double, triple]
   \<and> context_blind double \<and> context_blind triple
   \<and> map_option (\<lambda>p. map data (fst p)) (execute_chain double (PInt 5) (Some 0) chained0)
       = Some [PInt 10, PInt 30]
   \<and> map data (fst (execute_sequential [double, triple] (PInt 5) (Some 0) chained0))
       = [PInt 10, PInt 30]"
proof -
  have h1: "allocated (Some 0) chained0" by (simp add: allocated_def chained0_def state0_def)
  have h2: "linked chained0 [double, triple]"
    by (simp add: chained0_def state0_def double_def triple_def)
  have h3: "\<forall>a \<in> set [double, triple]. context_blind a"
    by (simp add: context_blind_def double_def triple_def)
  have run: "map_option (\<lambda>p. map data (fst p)) (execute_chain double (PInt 5) (Some 0) chained0)
       = Some [PInt 10, PInt 30]
   \<and> map data (fst (execute_sequential [double, triple] (PInt 5) (Some 0) chained0))
       = [PInt 10, PInt 30]"
    by (simp add: execute_chain_def chain_loop.simps execute_sequential_def agent_unfold
          example_unfold)
  from h3 have h4: "context_blind double" "context_blind triple" by simp_all
  from execute_chain_matches_sequential [OF h1 h2 h3, of "PInt 5"] h1 h2 h4 run
  show ?thesis by blast
qed

text \<open>
  The lists of envelopes are not the same, as the sentence has it: on that chain the
  second envelope of \<open>execute_sequential\<close> lists \<open>previous_results\<close> among its context
  keys and that of \<open>execute_chain\<close> does not.
\<close>

theorem chain_and_sequential_metadata_differ:
  "map_option (\<lambda>p. map metadata (fst p)) (execute_chain double (PInt 5) None chained0) =
     Some [[(''agent_id'', PStr ''double_1a2b3c4d''), (''context_keys'', PList [])],
           [(''agent_id'', PStr ''triple_9c0d1e2f''), (''context_keys'', PList [])]]
   \<and> map metadata (fst (execute_sequential [double, triple] (PInt 5) None chained0)) =
     [[(''agent_id'', PStr ''double_1a2b3c4d''), (''context_keys'', PList [])],
      [(''agent_id'', PStr ''triple_9c0d1e2f''),
       (''context_keys'', PList [PStr ''previous_results''])]]"
  by (simp add: execute_chain_def chain_loop.simps execute_sequential_def agent_unfold
        example_unfold)

section \<open>The workflow driver\<close>

text \<open>
  C7 (amended). In every successful run of \<open>execute_research\<close> on an id the storage
  knows, the record of that id reads, after the successive updates, \<open>analyzing\<close> (10),
  \<open>searching\<close> (25), \<open>extracting\<close> (40), \<open>analyzing\<close> (60), \<open>formatting\<close> (80),
  \<open>validating\<close> (95, only if validation is enabled) and \<open>completed\<close> (100); the progress
  values never decrease.
\<close>

theorem research_progress:
  assumes "research_storage research_id = Some e"
    and "execute_research utcnow agents research_id request (st, research_storage, []) = (result, ds')"
    and "succeeded result"
  shows "hist ds' = map Some
           ([(''analyzing'', 10), (''searching'', 25), (''extracting'', 40), (''analyzing'', 60),
             (''formatting'', 80)]
            @ (if enable_validation request then [(''validating'', 95)] else [])
            @ [(''completed'', 100)])
       \<and> sorted (map snd
           ([(''analyzing'', 10 :: int), (''searching'', 25), (''extracting'', 40),
             (''analyzing'', 60), (''formatting'', 80)]
            @ (if enable_validation request then [(''validating'', 95)] else [])
            @ [(''completed'', 100)]))"
proof -
  obtain x ds1 where w: "research_workflow utcnow agents research_id request (st, research_storage, []) = (x, ds1)"
    by (cases "research_workflow utcnow agents research_id request (st, research_storage, [])")
  show ?thesis
  proof (cases x)
    case (Inl msg)
    then have "result = PDict [(''success'', PBool False), (''report'', PStr ''''),
                  (''metadata'', PDict []), (''error'', PStr msg)]"
      using assms(2) w by (simp add: execute_research_def)
    then show ?thesis using assms(3) by (simp add: succeeded_def)
  next
    case (Inr v)
    then have d: "ds' = ds1" using assms(2) w by (simp add: execute_research_def)
    have k: "research_id \<in> dom (stor (st, research_storage, []))"
      using assms(1) by (auto simp: stor_def)
    have "hist (st, research_storage, []) = []" by (simp add: hist_def)
    with research_workflow_history [OF w [unfolded Inr] k] show ?thesis
      by (simp add: d)
  qed
qed

text \<open>A run with validation enabled in which all six agents succeed.\<close>

theorem research_progress_witness:
  "storage0 ''r1'' = Some (initial_entry ''r1'' ''what is new in rust'' (PStr ''anonymous'') 3 3)
   \<and> succeeded (fst (execute_research clock0 agents0 ''r1'' request0 (state0, storage0, [])))
   \<and> hist (snd (execute_research clock0 agents0 ''r1'' request0 (state0, storage0, []))) =
       [Some (''analyzing'', 10), Some (''searching'', 25), Some (''extracting'', 40),
        Some (''analyzing'', 60), Some (''formatting'', 80), Some (''validating'', 95),
        Some (''completed'', 100)]"
proof -
  have h1: "storage0 ''r1'' = Some (initial_entry ''r1'' ''what is new in rust'' (PStr ''anonymous'') 3 3)"
    by (simp add: storage0_def)
  have h2: "execute_research clock0 agents0 ''r1'' request0 (state0, storage0, []) =
              (fst (execute_research clock0 agents0 ''r1'' request0 (state0, storage0, [])),
               snd (execute_research clock0 agents0 ''r1'' request0 (state0, storage0, [])))"
    by simp
  have h3: "succeeded (fst (execute_research clock0 agents0 ''r1'' request0 (state0, storage0, [])))"
    by (simp add: driver_unfold agent_unfold example_unfold)
  have v: "enable_validation request0" by (simp add: request0_def)
  from research_progress [OF h1 h2 h3] h1 h3 v show ?thesis by simp
qed

text \<open>
  The status written with progress 60 is \<open>analyzing\<close> again; no update of the driver
  writes \<open>synthesizing\<close>.
\<close>

theorem fourth_status_is_analyzing:
  "succeeded (fst (execute_research clock0 agents0 ''r1'' request0 (state0, storage0, [])))
   \<and> hist (snd (execute_research clock0 agents0 ''r1'' request0 (state0, storage0, []))) ! 3
       = Some (''analyzing'', 60)"
  by (simp add: driver_unfold agent_unfold example_unfold)

end
